theory Spec2Isabelle
  imports Main "HOL-Library.Sublist" "HOL-Library.AList"
begin

section \<open>Strings of the host language\<close>

text \<open>
  A string is a sequence of code units, modelled as \<^typ>\<open>string\<close>. Every operation used
  by the sources (\<^verbatim>\<open>startsWith\<close>, \<^verbatim>\<open>endsWith\<close>, \<^verbatim>\<open>includes\<close>, \<^verbatim>\<open>replace\<close>, a global
  match of an escaped literal) compares code units only, so the size of the alphabet
  plays no role.
\<close>

definition startsWith :: "string \<Rightarrow> string \<Rightarrow> bool" where
  "startsWith s searchString = prefix searchString s"

definition endsWith :: "string \<Rightarrow> string \<Rightarrow> bool" where
  "endsWith s searchString = suffix searchString s"

text \<open>
  \<^verbatim>\<open>StringIndexOf(string, searchString, 0)\<close>: the least index at which \<open>searchString\<close>
  starts, \<open>None\<close> for "not found". The empty string is found at index 0.
\<close>

fun indexOf :: "string \<Rightarrow> string \<Rightarrow> nat option" where
  "indexOf [] searchString = (if searchString = [] then Some 0 else None)"
| "indexOf (c # cs) searchString =
     (if prefix searchString (c # cs) then Some 0
      else map_option Suc (indexOf cs searchString))"

definition includes_str :: "string \<Rightarrow> string \<Rightarrow> bool" where
  "includes_str s searchString = (indexOf s searchString \<noteq> None)"

text \<open>
  \<^verbatim>\<open>GetSubstitution(matched, str, position, captures, namedCaptures, template)\<close> for a
  string pattern: there are no captures, so of the \<^verbatim>\<open>$\<close> forms only \<^verbatim>\<open>$$\<close>, \<^verbatim>\<open>$&\<close>,
  the dollar-backquote form (text before the match) and the dollar-apostrophe form (text
  after the match) are expanded; \<^verbatim>\<open>$\<close> followed by digits or by \<^verbatim>\<open><\<close> stays as it is.
\<close>

fun getSubstitution :: "string \<Rightarrow> string \<Rightarrow> nat \<Rightarrow> string \<Rightarrow> string" where
  "getSubstitution matched str position [] = []"
| "getSubstitution matched str position [c] = [c]"
| "getSubstitution matched str position (c # d # templateRemainder) =
     (if c = CHR ''$'' \<and> d = CHR ''$'' then
        CHR ''$'' # getSubstitution matched str position templateRemainder
      else if c = CHR ''$'' \<and> d = CHR 0x60 then
        take position str @ getSubstitution matched str position templateRemainder
      else if c = CHR ''$'' \<and> d = CHR ''&'' then
        matched @ getSubstitution matched str position templateRemainder
      else if c = CHR ''$'' \<and> d = CHR 0x27 then
        drop (min (position + length matched) (length str)) str
          @ getSubstitution matched str position templateRemainder
      else c # getSubstitution matched str position (d # templateRemainder))"

text \<open>
  \<^verbatim>\<open>String.prototype.replace(searchValue, replaceValue)\<close> with two strings: only the
  first occurrence is replaced, and the replacement is the expansion of \<open>replaceValue\<close>
  as a template.
\<close>

definition replace :: "string \<Rightarrow> string \<Rightarrow> string \<Rightarrow> string" where
  "replace s searchValue replaceValue =
     (case indexOf s searchValue of
        None \<Rightarrow> s
      | Some position \<Rightarrow>
          take position s
            @ getSubstitution searchValue s position replaceValue
            @ drop (position + length searchValue) s)"

text \<open>
  Whether a replacement template contains one of the four forms that
  \<open>getSubstitution\<close> expands.
\<close>

fun dollarPattern :: "string \<Rightarrow> bool" where
  "dollarPattern [] = False"
| "dollarPattern [c] = False"
| "dollarPattern (c # d # cs) =
     ((c = CHR ''$'' \<and> (d = CHR ''$'' \<or> d = CHR 0x60 \<or> d = CHR ''&'' \<or> d = CHR 0x27))
      \<or> dollarPattern (d # cs))"

subsection \<open>Occurrences of a text\<close>

text \<open>
  The vocabulary in which the properties of the engine are stated: \<open>searchString\<close>
  occurs in \<open>s\<close> at index \<open>i\<close>; the number of indices at which it occurs; and \<open>s\<close> with
  the occurrence at the least index replaced by the text \<open>replacement\<close>, taken literally.
\<close>

definition occursAt :: "string \<Rightarrow> string \<Rightarrow> nat \<Rightarrow> bool" where
  "occursAt searchString s i = (i \<le> length s \<and> prefix searchString (drop i s))"

definition occurrenceCount :: "string \<Rightarrow> string \<Rightarrow> nat" where
  "occurrenceCount searchString s =
     length (filter (occursAt searchString s) [0..<Suc (length s)])"

definition replaceFirstLiterally :: "string \<Rightarrow> string \<Rightarrow> string \<Rightarrow> string" where
  "replaceFirstLiterally s searchString replacement =
     (case indexOf s searchString of
        None \<Rightarrow> s
      | Some i \<Rightarrow> take i s @ replacement @ drop (i + length searchString) s)"

subsection \<open>The regular expression built by \<^verbatim>\<open>escapeRegExp\<close>\<close>

definition backslash :: char where
  "backslash = CHR 0x5C"

text \<open>The character class \<^verbatim>\<open>[.*+?^${}()|[\]\\]\<close> of \<^verbatim>\<open>escapeRegExp\<close>.\<close>

definition syntaxCharacters :: "char list" where
  "syntaxCharacters =
     [CHR ''.'', CHR ''*'', CHR ''+'', CHR ''?'', CHR ''^'', CHR ''$'', CHR ''{'', CHR ''}'',
      CHR ''('', CHR '')'', CHR ''|'', CHR ''['', CHR '']'', backslash]"

text \<open>
  \<^verbatim>\<open>string.replace(/[.*+?^${}()|[\]\\]/g, '\\$&')\<close>: every syntax character gets a
  backslash in front, every other character is kept.
\<close>

definition escapeRegExp :: "string \<Rightarrow> string" where
  "escapeRegExp string =
     concat (map (\<lambda>c. if c \<in> set syntaxCharacters then [backslash, c] else [c]) string)"

text \<open>
  The patterns that reach \<^verbatim>\<open>new RegExp(pattern, 'g')\<close> come from \<open>escapeRegExp\<close>: they are
  sequences of pattern characters and identity escapes. \<open>patternText\<close> reads such a
  pattern as the text it matches: an escape \<^verbatim>\<open>\c\<close> stands for \<open>c\<close>, any other character
  for itself. Only this fragment of the pattern language is modelled.
\<close>

fun patternText :: "string \<Rightarrow> string" where
  "patternText [] = []"
| "patternText [c] = [c]"
| "patternText (c # d # cs) =
     (if c = backslash then d # patternText cs else c # patternText (d # cs))"

text \<open>
  The matches of a global regular expression for a non-empty literal text, scanning
  from index 0: after a match at index \<open>i\<close> the scan resumes at \<open>i + length literal\<close>,
  otherwise at \<open>i + 1\<close>, so the matches counted never overlap.
\<close>

fun literalMatches :: "string \<Rightarrow> string \<Rightarrow> nat" where
  "literalMatches literal [] = 0"
| "literalMatches literal (c # cs) =
     (if literal \<noteq> [] \<and> prefix literal (c # cs)
      then Suc (literalMatches literal (drop (length literal - 1) cs))
      else literalMatches literal cs)"

text \<open>
  \<^verbatim>\<open>(s.match(new RegExp(pattern, 'g')) || []).length\<close>. The empty pattern matches the
  empty string at every index.
\<close>

definition matchCount :: "string \<Rightarrow> string \<Rightarrow> nat" where
  "matchCount s pattern =
     (if patternText pattern = [] then Suc (length s)
      else literalMatches (patternText pattern) s)"

section \<open>Data model (types.ts)\<close>

text \<open>
  The object \<^verbatim>\<open>{ content, type }\<close> stored in the working map, and \<^verbatim>\<open>UploadedFile\<close>, which
  has the same two fields and a name.
\<close>

record FileData =
  content :: string
  type :: string

record UploadedFile = FileData +
  name :: string

text \<open>
  \<^verbatim>\<open>Deletion\<close>, \<^verbatim>\<open>Modification\<close> (a \<^verbatim>\<open>Deletion\<close> with a \<^verbatim>\<open>newCode\<close>) and the entries of
  \<^verbatim>\<open>newFiles\<close>; all of them carry a \<^verbatim>\<open>fileName\<close>.
\<close>

record Named =
  fileName :: string

record Deletion = Named +
  before :: string
  codeToDelete :: string
  after :: string

record Modification = Deletion +
  newCode :: string

record NewFile = Named +
  code :: string

text \<open>Optional properties of \<^verbatim>\<open>ModificationPlan\<close> are \<open>None\<close> when absent.\<close>

record ModificationPlan =
  delete :: "Deletion list option"
  modify :: "Modification list option"
  newFiles :: "NewFile list option"
  deleteFiles :: "string list option"
  notes' :: "string option"

text \<open>
  An element of the array \<^verbatim>\<open>operations\<close>. The source tells the two apart by
  \<^verbatim>\<open>'newCode' in op\<close>.
\<close>

datatype Operation = Del Deletion | Mod Modification

fun op_fileName :: "Operation \<Rightarrow> string" where
  "op_fileName (Del d) = fileName d"
| "op_fileName (Mod m) = fileName m"

fun op_before :: "Operation \<Rightarrow> string" where
  "op_before (Del d) = before d"
| "op_before (Mod m) = before m"

fun op_codeToDelete :: "Operation \<Rightarrow> string" where
  "op_codeToDelete (Del d) = codeToDelete d"
| "op_codeToDelete (Mod m) = codeToDelete m"

fun op_after :: "Operation \<Rightarrow> string" where
  "op_after (Del d) = after d"
| "op_after (Mod m) = after m"

fun isModification :: "Operation \<Rightarrow> bool" where
  "isModification (Del d) = False"
| "isModification (Mod m) = True"

section \<open>The patch engine (utils/codeModifier.ts)\<close>

text \<open>
  \<^verbatim>\<open>finalFilesMap\<close> is a \<^verbatim>\<open>Map\<close>: it iterates in insertion order, \<^verbatim>\<open>set\<close> on a present
  key keeps the key's place and on an absent key appends, \<^verbatim>\<open>delete\<close> removes the entry.
  This is an association list with \<^const>\<open>AList.update\<close>, \<^const>\<open>AList.delete\<close> and
  \<^const>\<open>map_of\<close>.
\<close>

type_synonym FilesMap = "(string \<times> FileData) list"

text \<open>What the engine writes to the console, in order.\<close>

datatype Diagnostic =
    WarnFileNotFound string
  | WarnContextMismatch string
  | ErrorCouldNotApply string nat
  | ErrorFailedOperation Operation
  | WarnAlreadyExists string

type_synonym EngineState = "FilesMap \<times> Diagnostic list"

text \<open>The entry that \<^verbatim>\<open>finalFilesMap.set(file.name, { content, type })\<close> stores for a file.\<close>

definition entryOf :: "UploadedFile \<Rightarrow> string \<times> FileData" where
  "entryOf file = (name file, \<lparr>content = content file, type = type file\<rparr>)"

definition initialMap :: "UploadedFile list \<Rightarrow> FilesMap" where
  "initialMap originalFiles =
     foldl (\<lambda>finalFilesMap file.
              AList.update (name file) \<lparr>content = content file, type = type file\<rparr> finalFilesMap)
       [] originalFiles"

definition deleteAll :: "string list \<Rightarrow> FilesMap \<Rightarrow> FilesMap" where
  "deleteAll names finalFilesMap =
     foldl (\<lambda>m fileNameToDelete. AList.delete fileNameToDelete m) finalFilesMap names"

definition fullContextString :: "Operation \<Rightarrow> string" where
  "fullContextString op = op_before op @ op_codeToDelete op @ op_after op"

fun replacementString :: "Operation \<Rightarrow> string" where
  "replacementString (Mod m) = before m @ newCode m @ after m"
| "replacementString (Del d) = before d @ after d"

fun directReplacement :: "Operation \<Rightarrow> string" where
  "directReplacement (Mod m) = newCode m"
| "directReplacement (Del d) = []"

definition occurrences :: "string \<Rightarrow> Operation \<Rightarrow> nat" where
  "occurrences currentCode op =
     (if op_codeToDelete op \<noteq> []
      then matchCount currentCode (escapeRegExp (op_codeToDelete op))
      else 0)"

text \<open>
  The body of the loop over \<^verbatim>\<open>operations\<close> for a file that is present: the new value of
  \<^verbatim>\<open>currentCode\<close> and the console output.
\<close>

definition editContent :: "FileData \<Rightarrow> Operation \<Rightarrow> string \<times> Diagnostic list" where
  "editContent fileData op =
     (let currentCode = content fileData in
      if \<not> startsWith (type fileData) ''image/'' then
        if includes_str currentCode (fullContextString op) then
          (replace currentCode (fullContextString op) (replacementString op), [])
        else if op_codeToDelete op \<noteq> [] \<and> occurrences currentCode op = 1 then
          (replace currentCode (op_codeToDelete op) (directReplacement op),
           [WarnContextMismatch (op_fileName op)])
        else
          (currentCode,
           [ErrorCouldNotApply (op_fileName op) (occurrences currentCode op),
            ErrorFailedOperation op])
      else
        (case op of Mod m \<Rightarrow> (newCode m, []) | Del d \<Rightarrow> (currentCode, [])))"

definition applyOperation :: "EngineState \<Rightarrow> Operation \<Rightarrow> EngineState" where
  "applyOperation st op =
     (case map_of (fst st) (op_fileName op) of
        None \<Rightarrow> (fst st, snd st @ [WarnFileNotFound (op_fileName op)])
      | Some fileData \<Rightarrow>
          (AList.update (op_fileName op)
             (fileData\<lparr>content := fst (editContent fileData op)\<rparr>) (fst st),
           snd st @ snd (editContent fileData op)))"

definition mimeOfName :: "string \<Rightarrow> string" where
  "mimeOfName fileName' =
     (if endsWith fileName' ''.js'' then ''application/javascript''
      else if endsWith fileName' ''.css'' then ''text/css''
      else if endsWith fileName' ''.html'' then ''text/html''
      else ''text/plain'')"

definition applyNewFile :: "EngineState \<Rightarrow> NewFile \<Rightarrow> EngineState" where
  "applyNewFile st newFile =
     (AList.update (fileName newFile)
        \<lparr>content = code newFile, type = mimeOfName (fileName newFile)\<rparr> (fst st),
      snd st @ (if map_of (fst st) (fileName newFile) \<noteq> None
                then [WarnAlreadyExists (fileName newFile)] else []))"

definition operations :: "ModificationPlan \<Rightarrow> Operation list" where
  "operations plan =
     map Del (case delete plan of None \<Rightarrow> [] | Some ds \<Rightarrow> ds)
       @ map Mod (case modify plan of None \<Rightarrow> [] | Some ms \<Rightarrow> ms)"

definition toFiles :: "FilesMap \<Rightarrow> UploadedFile list" where
  "toFiles finalFilesMap =
     map (\<lambda>(name', data). \<lparr>content = content data, type = type data, name = name'\<rparr>)
       finalFilesMap"

text \<open>The working map after step 1, the whole-file deletions.\<close>

definition workingSet :: "UploadedFile list \<Rightarrow> ModificationPlan \<Rightarrow> FilesMap" where
  "workingSet originalFiles plan =
     (case deleteFiles plan of
        None \<Rightarrow> initialMap originalFiles
      | Some names \<Rightarrow> deleteAll names (initialMap originalFiles))"

text \<open>The three steps of \<^verbatim>\<open>applyChanges\<close> on the working map and the console.\<close>

definition runPlan :: "UploadedFile list \<Rightarrow> ModificationPlan \<Rightarrow> EngineState" where
  "runPlan originalFiles plan =
     (let afterOperations =
            foldl applyOperation (workingSet originalFiles plan, []) (operations plan)
      in case newFiles plan of
           None \<Rightarrow> afterOperations
         | Some entries \<Rightarrow> foldl applyNewFile afterOperations entries)"

text \<open>\<^verbatim>\<open>applyChanges(originalFiles, plan).finalFiles\<close>.\<close>

definition applyChanges :: "UploadedFile list \<Rightarrow> ModificationPlan \<Rightarrow> UploadedFile list" where
  "applyChanges originalFiles plan = toFiles (fst (runPlan originalFiles plan))"

text \<open>The console output of the same call.\<close>

definition consoleOf :: "UploadedFile list \<Rightarrow> ModificationPlan \<Rightarrow> Diagnostic list" where
  "consoleOf originalFiles plan = snd (runPlan originalFiles plan)"

text \<open>The plan \<^verbatim>\<open>{}\<close>, and the names a plan mentions.\<close>

definition emptyPlan :: ModificationPlan where
  "emptyPlan = \<lparr>delete = None, modify = None, newFiles = None, deleteFiles = None, notes' = None\<rparr>"

definition targets :: "ModificationPlan \<Rightarrow> string set" where
  "targets plan =
     set (case deleteFiles plan of None \<Rightarrow> [] | Some names \<Rightarrow> names)
     \<union> set (map op_fileName (operations plan))
     \<union> set (map fileName (case newFiles plan of None \<Rightarrow> [] | Some entries \<Rightarrow> entries))"

section \<open>The version store (utils/storage.ts)\<close>

text \<open>
  A value of type \<^verbatim>\<open>number\<close> that the store computes with: \<^verbatim>\<open>NaN\<close> or an integer. The
  numbers of the host are doubles, among which the integers from \<open>-2\<^sup>5\<^sup>3\<close> to \<open>2\<^sup>5\<^sup>3\<close>
  are all present and \<open>2\<^sup>5\<^sup>3 + 1\<close> is not: \<open>Num i\<close> stands for the double \<open>i\<close>, for \<open>i\<close> in
  this range only (\<open>exact i\<close>), and for both zeros. The operations below are those of the
  host on this range; outside it the host rounds, to digits that this model does not
  follow, and the operations are \<open>None\<close> there.
\<close>

datatype number = NaN | Num int

definition exactLimit :: int where
  "exactLimit = 9007199254740992"

definition exact :: "int \<Rightarrow> bool" where
  "exact i = (- exactLimit \<le> i \<and> i \<le> exactLimit)"

definition isDigit :: "char \<Rightarrow> bool" where
  "isDigit c = (48 \<le> (of_char c :: nat) \<and> (of_char c :: nat) \<le> 57)"

definition digitValue :: "char \<Rightarrow> nat" where
  "digitValue c = of_char c - 48"

definition digitChar :: "nat \<Rightarrow> char" where
  "digitChar d = char_of (48 + d)"

text \<open>White space and line terminators that \<^verbatim>\<open>parseInt\<close> skips, among the code units below 256.\<close>

definition isWhiteSpace :: "char \<Rightarrow> bool" where
  "isWhiteSpace c = ((of_char c :: nat) \<in> {9, 10, 11, 12, 13, 32, 160})"

fun digitsOf :: "nat \<Rightarrow> string" where
  "digitsOf n = (if n < 10 then [digitChar n] else digitsOf (n div 10) @ [digitChar (n mod 10)])"

declare digitsOf.simps [simp del]

text \<open>
  \<^verbatim>\<open>Number.prototype.toString()\<close>, which template literals use as well: the decimal
  digits of an exact integer.
\<close>

fun toString :: "number \<Rightarrow> string option" where
  "toString NaN = Some ''NaN''"
| "toString (Num i) =
     (if exact i then Some (if i < 0 then CHR ''-'' # digitsOf (nat (- i)) else digitsOf (nat i))
      else None)"

declare toString.simps [simp del]

definition digitsValue :: "string \<Rightarrow> nat" where
  "digitsValue ds = foldl (\<lambda>a c. 10 * a + digitValue c) 0 ds"

text \<open>
  \<^verbatim>\<open>parseInt(string, 10)\<close>: leading white space is skipped, a sign is read, and the
  longest run of decimal digits that follows is the value; \<^verbatim>\<open>NaN\<close> when there is no digit.
  A run of digits that denotes an integer above \<open>2\<^sup>5\<^sup>3\<close> is rounded by the host: \<open>None\<close>.
\<close>

definition parseInt :: "string \<Rightarrow> number option" where
  "parseInt string =
     (let trimmed = dropWhile isWhiteSpace string;
          negative = (trimmed \<noteq> [] \<and> hd trimmed = CHR ''-'');
          unsigned = (if trimmed \<noteq> [] \<and> (hd trimmed = CHR ''-'' \<or> hd trimmed = CHR ''+'')
                      then tl trimmed else trimmed);
          digits = takeWhile isDigit unsigned
      in if digits = [] then Some NaN
         else if int (digitsValue digits) \<le> exactLimit then
           Some (Num (if negative then - int (digitsValue digits) else int (digitsValue digits)))
         else None)"

text \<open>
  \<^verbatim>\<open>currentVersionCount + 1\<close>. The sum \<open>2\<^sup>5\<^sup>3 + 1\<close> lies half-way between the doubles \<open>2\<^sup>5\<^sup>3\<close>
  and \<open>2\<^sup>5\<^sup>3 + 2\<close> and is rounded to the one with the even significand, \<open>2\<^sup>5\<^sup>3\<close>.
\<close>

fun plus1 :: "number \<Rightarrow> number option" where
  "plus1 NaN = Some NaN"
| "plus1 (Num i) = (if exact i then Some (Num (if i = exactLimit then exactLimit else i + 1)) else None)"


definition VERSION_COUNT_KEY :: string where
  "VERSION_COUNT_KEY = ''ai_code_modifier_version_count''"

definition VERSION_PREFIX :: string where
  "VERSION_PREFIX = ''ai_code_modifier_version_''"

text \<open>
  \<^verbatim>\<open>localStorage\<close>: the key/value pairs in the order of \<^verbatim>\<open>key(i)\<close>; \<open>None\<close> stands for
  \<^verbatim>\<open>typeof localStorage === 'undefined'\<close>. Whether the medium refuses a write (it then
  throws) is its own business: \<open>rejects items key value\<close> is a parameter.
\<close>

type_synonym Items = "(string \<times> string) list"

definition getItem :: "Items \<Rightarrow> string \<Rightarrow> string option" where
  "getItem items key = map_of items key"

definition setItem :: "(Items \<Rightarrow> string \<Rightarrow> string \<Rightarrow> bool) \<Rightarrow> Items \<Rightarrow> string \<Rightarrow> string \<Rightarrow> Items option" where
  "setItem rejects items key value =
     (if rejects items key value then None else Some (AList.update key value items))"


text \<open>
  \<^verbatim>\<open>currentVersionCountStr ? parseInt(currentVersionCountStr, 10) : 0\<close>; \<open>None\<close> when the
  stored counter is beyond the exact integers.
\<close>

definition currentVersionCount :: "Items \<Rightarrow> number option" where
  "currentVersionCount items =
     (case getItem items VERSION_COUNT_KEY of
        None \<Rightarrow> Some (Num 0)
      | Some currentVersionCountStr \<Rightarrow>
          if currentVersionCountStr \<noteq> [] then parseInt currentVersionCountStr else Some (Num 0))"

text \<open>
  \<^verbatim>\<open>saveCodeVersion\<close>: the number returned and the store afterwards. \<open>JSON_stringify\<close> is
  the host's serialisation of a file list. A rejected write is caught and gives \<open>-1\<close>;
  what was written before it stays. The result is \<open>None\<close> only when the stored counter
  is beyond the exact integers.
\<close>

definition saveCodeVersion ::
  "(Items \<Rightarrow> string \<Rightarrow> string \<Rightarrow> bool) \<Rightarrow> (UploadedFile list \<Rightarrow> string) \<Rightarrow> Items option
     \<Rightarrow> UploadedFile list \<Rightarrow> (number \<times> Items option) option" where
  "saveCodeVersion rejects JSON_stringify localStorage fs =
     (case localStorage of
        None \<Rightarrow> Some (Num (- 1), None)
      | Some items \<Rightarrow>
          (case currentVersionCount items of
             None \<Rightarrow> None
           | Some count \<Rightarrow>
               (case plus1 count of
                  None \<Rightarrow> None
                | Some newVersion \<Rightarrow>
                    (case toString newVersion of
                       None \<Rightarrow> None
                     | Some newVersionStr \<Rightarrow>
                         (case setItem rejects items (VERSION_PREFIX @ newVersionStr) (JSON_stringify fs) of
                            None \<Rightarrow> Some (Num (- 1), Some items)
                          | Some items1 \<Rightarrow>
                              (case setItem rejects items1 VERSION_COUNT_KEY newVersionStr of
                                 None \<Rightarrow> Some (Num (- 1), Some items1)
                               | Some items2 \<Rightarrow> Some (newVersion, Some items2)))))))"






text \<open>
  The stores that saves leave, from the empty store, on a medium that accepts every
  write.
\<close>

inductive savedStore :: "(UploadedFile list \<Rightarrow> string) \<Rightarrow> Items \<Rightarrow> bool"
  for JSON_stringify :: "UploadedFile list \<Rightarrow> string" where
  empty: "savedStore JSON_stringify []"
| save: "savedStore JSON_stringify items \<Longrightarrow>
         saveCodeVersion (\<lambda>i k v. False) JSON_stringify (Some items) fs = Some (n, Some items') \<Longrightarrow>
         savedStore JSON_stringify items'"

section \<open>Session history (App.tsx)\<close>

definition MAX_HISTORY_LENGTH :: nat where
  "MAX_HISTORY_LENGTH = 10"

text \<open>
  The part of the component state that the undo stack involves: the state variables
  \<^verbatim>\<open>files\<close> and \<^verbatim>\<open>history\<close>.
\<close>

record AppState =
  files' :: "UploadedFile list"
  history :: "UploadedFile list list"

text \<open>
  \<^verbatim>\<open>prev => [files, ...prev].slice(0, MAX_HISTORY_LENGTH)\<close>, with the current value of
  \<^verbatim>\<open>files\<close> as the snapshot.
\<close>

definition pushHistory :: "UploadedFile list \<Rightarrow> UploadedFile list list \<Rightarrow> UploadedFile list list" where
  "pushHistory snapshot prev = take MAX_HISTORY_LENGTH (snapshot # prev)"

text \<open>\<^verbatim>\<open>if (files.length > 0) { setHistory(prev => ...) }\<close> in \<^verbatim>\<open>handleGenerateOrModify\<close>.\<close>

definition pushSnapshot :: "AppState \<Rightarrow> AppState" where
  "pushSnapshot st =
     (if length (files' st) > 0 then st\<lparr>history := pushHistory (files' st) (history st)\<rparr>
      else st)"

text \<open>\<^verbatim>\<open>if (files.length > 0) setHistory(prev => prev.slice(1))\<close>, the roll-back.\<close>

definition rollbackSnapshot :: "AppState \<Rightarrow> AppState" where
  "rollbackSnapshot st =
     (if length (files' st) > 0 then st\<lparr>history := drop 1 (history st)\<rparr> else st)"

text \<open>\<^verbatim>\<open>resetState\<close> clears the history (its other fields are not modelled).\<close>

definition resetState :: "AppState \<Rightarrow> AppState" where
  "resetState st = st\<lparr>history := []\<rparr>"

text \<open>
  The destructuring \<^verbatim>\<open>const [previousVersion, ...restOfHistory] = history\<close> under the
  guard \<^verbatim>\<open>history.length > 0\<close>; \<open>None\<close> when there is nothing to undo.
\<close>

definition popHistory ::
  "UploadedFile list list \<Rightarrow> (UploadedFile list \<times> UploadedFile list list) option" where
  "popHistory history' =
     (case history' of
        [] \<Rightarrow> None
      | previousVersion # restOfHistory \<Rightarrow> Some (previousVersion, restOfHistory))"

text \<open>
  \<^verbatim>\<open>handleUndoClick\<close>: the state updates are applied in the order they are queued,
  \<^verbatim>\<open>setFiles\<close>, \<^verbatim>\<open>setHistory\<close>, then those of \<^verbatim>\<open>resetState\<close>.
\<close>

definition handleUndoClick :: "AppState \<Rightarrow> AppState" where
  "handleUndoClick st =
     (case popHistory (history st) of
        None \<Rightarrow> st
      | Some (previousVersion, restOfHistory) \<Rightarrow>
          resetState (st\<lparr>files' := previousVersion, history := restOfHistory\<rparr>))"

text \<open>
  \<^verbatim>\<open>handleGenerateOrModify\<close>, once the request is accepted and up to its first \<^verbatim>\<open>await\<close>:
  \<^verbatim>\<open>resetState()\<close> and then the push. The state updates are applied in the order they
  are queued, \<^verbatim>\<open>setHistory([])\<close> before the updater that prepends. A generation that fails
  or proposes nothing ends with the roll-back above.
\<close>

definition handleGenerateOrModify :: "AppState \<Rightarrow> AppState" where
  "handleGenerateOrModify st = pushSnapshot (resetState st)"

text \<open>
  \<^verbatim>\<open>handleApproveClick\<close>, when the commit or the local save has gone through:
  \<^verbatim>\<open>setFiles(modifiedResult.modifiedFiles)\<close> and then \<^verbatim>\<open>resetState()\<close>.
\<close>

definition handleApproveClick :: "UploadedFile list \<Rightarrow> AppState \<Rightarrow> AppState" where
  "handleApproveClick modifiedFiles st = resetState (st\<lparr>files' := modifiedFiles\<rparr>)"

text \<open>
  The states the component can be in, as far as files and history go: any of the
  updates above, in any order, from an empty history; \<^verbatim>\<open>setFiles\<close> may store any
  file list.
\<close>

inductive reachable :: "AppState \<Rightarrow> bool" where
  initial: "reachable \<lparr>files' = fs, history = []\<rparr>"
| setFiles: "reachable st \<Longrightarrow> reachable (st\<lparr>files' := fs\<rparr>)"
| push: "reachable st \<Longrightarrow> reachable (pushSnapshot st)"
| rollback: "reachable st \<Longrightarrow> reachable (rollbackSnapshot st)"
| reset: "reachable st \<Longrightarrow> reachable (resetState st)"
| undo: "reachable st \<Longrightarrow> reachable (handleUndoClick st)"

text \<open>
  The states that the handlers of the component leave: the push only as
  \<^verbatim>\<open>handleGenerateOrModify\<close> makes it.
\<close>

inductive session :: "AppState \<Rightarrow> bool" where
  start: "session \<lparr>files' = [], history = []\<rparr>"
| setFiles: "session st \<Longrightarrow> session (st\<lparr>files' := fs\<rparr>)"
| generate: "session st \<Longrightarrow> session (handleGenerateOrModify st)"
| rollback: "session st \<Longrightarrow> session (rollbackSnapshot st)"
| approve: "session st \<Longrightarrow> session (handleApproveClick modifiedFiles st)"
| reset: "session st \<Longrightarrow> session (resetState st)"
| undo: "session st \<Longrightarrow> session (handleUndoClick st)"

section \<open>Example inputs\<close>

text \<open>Files, operations and stores at which the theorems below are instantiated.\<close>

definition logoFile :: UploadedFile where
  "logoFile = \<lparr>content = ''data:image/png;base64,AAAA'', type = ''image/png'', name = ''logo.png''\<rparr>"

definition appFile :: UploadedFile where
  "appFile = \<lparr>content = ''let a = 1; let b = 2;'', type = ''text/javascript'', name = ''app.js''\<rparr>"

definition renameA :: Modification where
  "renameA = \<lparr>fileName = ''app.js'', before = ''let '', codeToDelete = ''a'', after = '' = 1'',
               newCode = ''total''\<rparr>"

definition retouchLogo :: Modification where
  "retouchLogo = \<lparr>fileName = ''logo.png'', before = '''', codeToDelete = ''AAAA'', after = '''',
                   newCode = ''data:image/png;base64,BBBB''\<rparr>"

definition cutA :: Deletion where
  "cutA = \<lparr>fileName = ''app.js'', before = ''let '', codeToDelete = ''a = 1; let '', after = ''b''\<rparr>"

definition dropLet :: Deletion where
  "dropLet = \<lparr>fileName = ''app.js'', before = ''var '', codeToDelete = ''let '', after = ''c''\<rparr>"

definition priceFile :: UploadedFile where
  "priceFile = \<lparr>content = ''let price = 0;'', type = ''text/javascript'', name = ''price.js''\<rparr>"

definition setPrice :: Modification where
  "setPrice = \<lparr>fileName = ''price.js'', before = ''let price = '', codeToDelete = ''0'', after = '';'',
                newCode = ''amount + '' @ [CHR 0x27, CHR ''$'', CHR 0x27]\<rparr>"

definition stalePrice :: Modification where
  "stalePrice = \<lparr>fileName = ''price.js'', before = ''var price = '', codeToDelete = ''0'', after = '';'',
                  newCode = ''amount + '' @ [CHR 0x27, CHR ''$'', CHR 0x27]\<rparr>"

text \<open>Eleven states of one page, the snapshots of eleven generations.\<close>

definition page :: "nat \<Rightarrow> UploadedFile list" where
  "page n = [\<lparr>content = ''state '' @ digitsOf n, type = ''text/html'', name = ''index.html''\<rparr>]"

definition elevenPages :: "UploadedFile list list" where
  "elevenPages = map page [1 ..< 12]"








section \<open>Searching and replacing\<close>

lemma indexOf_Some:
  "indexOf s p = Some i \<Longrightarrow> occursAt p s i \<and> (\<forall>j<i. \<not> occursAt p s j)"
proof (induction s arbitrary: i)
  case Nil
  then show ?case by (auto simp: occursAt_def split: if_splits)
next
  case (Cons c cs)
  show ?case
  proof (cases "prefix p (c # cs)")
    case True
    then show ?thesis using Cons.prems by (simp add: occursAt_def)
  next
    case False
    then obtain k where k: "indexOf cs p = Some k" "i = Suc k"
      using Cons.prems by auto
    from Cons.IH [OF k(1)] have ih: "occursAt p cs k" "\<forall>j<k. \<not> occursAt p cs j"
      by auto
    have "occursAt p (c # cs) (Suc k)"
      using ih(1) by (simp add: occursAt_def)
    moreover have "\<not> occursAt p (c # cs) j" if "j < Suc k" for j
    proof (cases j)
      case 0
      then show ?thesis using False by (simp add: occursAt_def)
    next
      case (Suc j')
      then show ?thesis using ih(2) that by (simp add: occursAt_def)
    qed
    ultimately show ?thesis using k(2) by blast
  qed
qed

lemma indexOf_None: "indexOf s p = None \<Longrightarrow> \<not> occursAt p s i"
proof (induction s arbitrary: i)
  case Nil
  then show ?case by (auto simp: occursAt_def split: if_splits)
next
  case (Cons c cs)
  then have np: "\<not> prefix p (c # cs)" and n: "indexOf cs p = None"
    by (auto split: if_splits)
  show ?case
  proof (cases i)
    case 0
    then show ?thesis using np by (simp add: occursAt_def)
  next
    case (Suc j)
    then show ?thesis using Cons.IH [OF n, of j] by (simp add: occursAt_def)
  qed
qed

lemma includes_str_iff: "includes_str s p \<longleftrightarrow> (\<exists>i. occursAt p s i)"
  unfolding includes_str_def
  using indexOf_None [of s p] indexOf_Some [of s p] by (cases "indexOf s p") auto

lemma occursAt_sublist: "(\<exists>i. occursAt p s i) \<longleftrightarrow> sublist p s"
proof
  assume "\<exists>i. occursAt p s i"
  then obtain i where "prefix p (drop i s)" by (auto simp: occursAt_def)
  then obtain post where "drop i s = p @ post" by (auto simp: prefix_def)
  then have "s = take i s @ p @ post" by (metis append_take_drop_id)
  then show "sublist p s" unfolding sublist_def by blast
next
  assume "sublist p s"
  then obtain pre post where s: "s = pre @ p @ post" unfolding sublist_def by blast
  then have "occursAt p s (length pre)" by (simp add: occursAt_def)
  then show "\<exists>i. occursAt p s i" ..
qed

lemma includes_str_sublist: "includes_str s p \<longleftrightarrow> sublist p s"
  by (simp add: includes_str_iff occursAt_sublist)

lemma getSubstitution_plain:
  "\<not> dollarPattern template \<Longrightarrow> getSubstitution matched str position template = template"
  by (induction matched str position template rule: getSubstitution.induct) auto

lemma replace_plain:
  "\<not> dollarPattern r \<Longrightarrow> replace s p r = replaceFirstLiterally s p r"
  by (simp add: replace_def replaceFirstLiterally_def getSubstitution_plain split: option.splits)

lemma replaceFirstLiterally_first:
  assumes "occursAt p s k"
  shows "\<exists>i. occursAt p s i \<and> (\<forall>j<i. \<not> occursAt p s j)
           \<and> s = take i s @ p @ drop (i + length p) s
           \<and> replaceFirstLiterally s p r = take i s @ r @ drop (i + length p) s"
proof -
  obtain i where i: "indexOf s p = Some i"
    using assms indexOf_None [of s p k] by (cases "indexOf s p") auto
  from indexOf_Some [OF i] have o: "occursAt p s i" and m: "\<forall>j<i. \<not> occursAt p s j"
    by auto
  from o obtain post where "drop i s = p @ post" by (auto simp: occursAt_def prefix_def)
  then have "drop (i + length p) s = post" "s = take i s @ p @ post"
    by (metis add.commute append_eq_conv_conj drop_drop, metis append_take_drop_id)
  then have "s = take i s @ p @ drop (i + length p) s" by simp
  then show ?thesis using o m i by (auto simp: replaceFirstLiterally_def)
qed

subsection \<open>Counting matches\<close>

lemma patternText_plain: "c \<noteq> backslash \<Longrightarrow> patternText (c # r) = c # patternText r"
  by (cases r) simp_all

lemma escapeRegExp_Cons:
  "escapeRegExp (c # cs) =
     (if c \<in> set syntaxCharacters then [backslash, c] else [c]) @ escapeRegExp cs"
  by (simp add: escapeRegExp_def)

lemma patternText_escapeRegExp: "patternText (escapeRegExp s) = s"
proof (induction s)
  case Nil
  show ?case by (simp add: escapeRegExp_def)
next
  case (Cons c cs)
  show ?case
  proof (cases "c \<in> set syntaxCharacters")
    case True
    then show ?thesis using Cons.IH by (simp add: escapeRegExp_Cons)
  next
    case False
    then have "c \<noteq> backslash" by (auto simp: syntaxCharacters_def)
    then show ?thesis using False Cons.IH by (simp add: escapeRegExp_Cons patternText_plain)
  qed
qed

lemma literalMatches_pos:
  "0 < literalMatches p s \<longleftrightarrow> p \<noteq> [] \<and> sublist p s"
proof (induction s)
  case Nil
  show ?case by simp
next
  case (Cons c cs)
  show ?case
  proof (cases "p \<noteq> [] \<and> prefix p (c # cs)")
    case True
    then show ?thesis by (auto simp: prefix_imp_sublist)
  next
    case False
    then show ?thesis using Cons.IH by (auto simp: sublist_Cons_right)
  qed
qed

lemma literalMatches_twice:
  "2 \<le> literalMatches p s \<longleftrightarrow> p \<noteq> [] \<and> (\<exists>a b c. s = a @ p @ b @ p @ c)"
proof (induction p s rule: literalMatches.induct)
  case (1 literal)
  show ?case by simp
next
  case (2 literal c cs)
  show ?case
  proof (cases "literal \<noteq> [] \<and> prefix literal (c # cs)")
    case True
    then obtain rest where rest: "c # cs = literal @ rest" by (auto simp: prefix_def)
    have d: "drop (length literal - 1) cs = rest"
    proof -
      have "drop (length literal) (c # cs) = rest" using rest by simp
      moreover have "drop (length literal) (c # cs) = drop (length literal - 1) cs"
        using True by (cases literal) auto
      ultimately show ?thesis by simp
    qed
    have "2 \<le> literalMatches literal (c # cs) \<longleftrightarrow> 0 < literalMatches literal rest"
      using True d by auto
    also have "\<dots> \<longleftrightarrow> sublist literal rest"
      using True by (simp add: literalMatches_pos)
    also have "\<dots> \<longleftrightarrow> (\<exists>a b c'. c # cs = a @ literal @ b @ literal @ c')"
    proof
      assume "sublist literal rest"
      then obtain b c' where "rest = b @ literal @ c'" unfolding sublist_def by blast
      then have "c # cs = [] @ literal @ b @ literal @ c'" using rest by simp
      then show "\<exists>a b c'. c # cs = a @ literal @ b @ literal @ c'" by blast
    next
      assume "\<exists>a b c'. c # cs = a @ literal @ b @ literal @ c'"
      then obtain a b c' where e: "c # cs = a @ literal @ b @ literal @ c'" by blast
      have "rest = drop (length literal) (c # cs)" using rest by simp
      also have "\<dots> = drop (length literal) ((a @ literal @ b) @ literal @ c')"
        using e by simp
      also have "\<dots> = drop (length literal) (a @ literal @ b) @ literal @ c'"
        by simp
      finally show "sublist literal rest" unfolding sublist_def by blast
    qed
    finally show ?thesis using True by simp
  next
    case False
    show ?thesis
    proof (cases "literal = []")
      case True
      then show ?thesis using 2 by simp
    next
      case ne: False
      then have np: "\<not> prefix literal (c # cs)" using False by simp
      have "(\<exists>a b c'. c # cs = a @ literal @ b @ literal @ c')
            \<longleftrightarrow> (\<exists>a b c'. cs = a @ literal @ b @ literal @ c')"
      proof
        assume "\<exists>a b c'. c # cs = a @ literal @ b @ literal @ c'"
        then obtain a b c' where e: "c # cs = a @ literal @ b @ literal @ c'" by blast
        show "\<exists>a b c'. cs = a @ literal @ b @ literal @ c'"
        proof (cases a)
          case Nil
          then have "prefix literal (c # cs)" using e by (simp add: prefix_def)
          then show ?thesis using np by simp
        next
          case (Cons x a')
          then have "cs = a' @ literal @ b @ literal @ c'" using e by simp
          then show ?thesis by blast
        qed
      next
        assume "\<exists>a b c'. cs = a @ literal @ b @ literal @ c'"
        then obtain a b c' where "cs = a @ literal @ b @ literal @ c'" by blast
        then have "c # cs = (c # a) @ literal @ b @ literal @ c'" by simp
        then show "\<exists>a b c'. c # cs = a @ literal @ b @ literal @ c'" by blast
      qed
      then show ?thesis using 2 False ne by simp
    qed
  qed
qed

lemma matchCount_escapeRegExp:
  "p \<noteq> [] \<Longrightarrow> matchCount s (escapeRegExp p) = literalMatches p s"
  by (simp add: matchCount_def patternText_escapeRegExp)

lemma occurrences_eq:
  "occurrences currentCode op =
     (if op_codeToDelete op \<noteq> [] then literalMatches (op_codeToDelete op) currentCode else 0)"
  by (simp add: occurrences_def matchCount_escapeRegExp)

lemma occurrenceCount_card: "occurrenceCount p s = card {i. occursAt p s i}"
proof -
  have "{i. occursAt p s i} \<inter> set [0..<Suc (length s)] = {i. occursAt p s i}"
    by (auto simp: occursAt_def)
  moreover have "length (filter (occursAt p s) [0..<Suc (length s)])
      = card ({i. occursAt p s i} \<inter> set [0..<Suc (length s)])"
    by (rule distinct_length_filter) (rule distinct_upt)
  ultimately show ?thesis
    unfolding occurrenceCount_def by (simp only:)
qed

lemma finite_occurrences: "finite {i. occursAt p s i}"
proof -
  have "{i. occursAt p s i} \<subseteq> {..length s}" by (auto simp: occursAt_def)
  then show ?thesis by (rule finite_subset) simp
qed

lemma occurrenceCount_zero: "occurrenceCount p s = 0 \<longleftrightarrow> \<not> sublist p s"
  using finite_occurrences [of p s]
  by (auto simp: occurrenceCount_card occursAt_sublist [symmetric])

lemma occursAt_append: "occursAt p (a @ p @ b) (length a)"
  by (simp add: occursAt_def)

lemma occurrenceCount_twice:
  assumes "s = a @ p @ b @ p @ c" and "p \<noteq> []"
  shows "2 \<le> occurrenceCount p s"
proof -
  have 1: "occursAt p s (length a)"
    using assms(1) occursAt_append [of p a "b @ p @ c"] by simp
  have 2: "occursAt p s (length (a @ p @ b))"
    using assms(1) occursAt_append [of p "a @ p @ b" c] by simp
  have ne: "length a \<noteq> length (a @ p @ b)" using assms(2) by simp
  have "{length a, length (a @ p @ b)} \<subseteq> {i. occursAt p s i}" using 1 2 by simp
  then have "card {length a, length (a @ p @ b)} \<le> card {i. occursAt p s i}"
    by (rule card_mono [OF finite_occurrences])
  then show ?thesis using ne by (simp add: occurrenceCount_card)
qed

lemma literalMatches_once:
  assumes "occurrenceCount p s = 1" and "p \<noteq> []"
  shows "literalMatches p s = 1"
proof -
  have "sublist p s" using assms(1) occurrenceCount_zero [of p s] by auto
  then have pos: "0 < literalMatches p s" using assms(2) by (simp add: literalMatches_pos)
  have "\<not> 2 \<le> literalMatches p s"
  proof
    assume "2 \<le> literalMatches p s"
    then obtain a b c where "s = a @ p @ b @ p @ c"
      by (auto simp: literalMatches_twice)
    then have "2 \<le> occurrenceCount p s" using assms(2) by (rule occurrenceCount_twice)
    then show False using assms(1) by simp
  qed
  then show ?thesis using pos by simp
qed

section \<open>One operation on one file\<close>

lemma editContent_anchored:
  assumes "\<not> startsWith (type fileData) ''image/''"
    and "sublist (fullContextString op) (content fileData)"
  shows "editContent fileData op =
    (replace (content fileData) (fullContextString op) (replacementString op), [])"
  using assms by (simp add: editContent_def includes_str_sublist)

lemma editContent_fallback:
  assumes "\<not> startsWith (type fileData) ''image/''"
    and "\<not> sublist (fullContextString op) (content fileData)"
    and "op_codeToDelete op \<noteq> []"
    and "occurrenceCount (op_codeToDelete op) (content fileData) = 1"
  shows "editContent fileData op =
    (replace (content fileData) (op_codeToDelete op) (directReplacement op),
     [WarnContextMismatch (op_fileName op)])"
  using assms
  by (simp add: editContent_def includes_str_sublist occurrences_eq literalMatches_once)

lemma editContent_unresolvable:
  assumes "\<not> startsWith (type fileData) ''image/''"
    and "\<not> sublist (fullContextString op) (content fileData)"
    and "op_codeToDelete op = [] \<or> \<not> sublist (op_codeToDelete op) (content fileData)
         \<or> (\<exists>a b c. content fileData = a @ op_codeToDelete op @ b @ op_codeToDelete op @ c)"
  shows "editContent fileData op =
    (content fileData,
     [ErrorCouldNotApply (op_fileName op) (occurrences (content fileData) op),
      ErrorFailedOperation op])"
proof -
  have "\<not> (op_codeToDelete op \<noteq> [] \<and> occurrences (content fileData) op = 1)"
  proof
    assume a: "op_codeToDelete op \<noteq> [] \<and> occurrences (content fileData) op = 1"
    then have one: "literalMatches (op_codeToDelete op) (content fileData) = 1"
      by (auto simp: occurrences_eq)
    then have "sublist (op_codeToDelete op) (content fileData)"
      using literalMatches_pos [of "op_codeToDelete op" "content fileData"] by simp
    moreover have "\<not> (\<exists>a b c. content fileData = a @ op_codeToDelete op @ b @ op_codeToDelete op @ c)"
    proof -
      have "\<not> 2 \<le> literalMatches (op_codeToDelete op) (content fileData)"
        using one by simp
      then show ?thesis
        using a literalMatches_twice [of "op_codeToDelete op" "content fileData"] by blast
    qed
    ultimately show False using assms(3) a by blast
  qed
  then show ?thesis using assms(1,2)
    by (auto simp: editContent_def Let_def includes_str_sublist)
qed

lemma editContent_image_deletion:
  "startsWith (type fileData) ''image/'' \<Longrightarrow> editContent fileData (Del d) = (content fileData, [])"
  by (simp add: editContent_def)

lemma editContent_image_modification:
  "startsWith (type fileData) ''image/'' \<Longrightarrow> editContent fileData (Mod m) = (newCode m, [])"
  by (simp add: editContent_def)

section \<open>The working map\<close>

lemma update_absent: "k \<notin> fst ` set m \<Longrightarrow> AList.update k v m = m @ [(k, v)]"
  by (induction m) auto

lemma update_present_keys: "k \<in> fst ` set m \<Longrightarrow> map fst (AList.update k v m) = map fst m"
  by (simp add: update_keys)

lemma initialMap_fold:
  "initialMap fs = foldl (\<lambda>m file. AList.update (fst (entryOf file)) (snd (entryOf file)) m) [] fs"
  by (simp add: initialMap_def entryOf_def)

lemma fold_update_distinct:
  "distinct (map fst m) \<Longrightarrow>
   distinct (map fst (foldl (\<lambda>m file. AList.update (fst (entryOf file)) (snd (entryOf file)) m) m fs))"
  by (induction fs arbitrary: m) (simp_all add: distinct_update)

lemma fold_update_keys:
  "fst ` set (foldl (\<lambda>m file. AList.update (fst (entryOf file)) (snd (entryOf file)) m) m fs)
   = fst ` set m \<union> name ` set fs"
  by (induction fs arbitrary: m) (auto simp: dom_update entryOf_def)

lemma fold_update_fresh:
  "distinct (map fst m @ map name fs) \<Longrightarrow>
   foldl (\<lambda>m file. AList.update (fst (entryOf file)) (snd (entryOf file)) m) m fs
   = m @ map entryOf fs"
proof (induction fs arbitrary: m)
  case Nil
  show ?case by simp
next
  case (Cons f fs)
  have fresh: "fst (entryOf f) \<notin> fst ` set m"
    using Cons.prems by (auto simp: entryOf_def)
  have upd: "AList.update (fst (entryOf f)) (snd (entryOf f)) m = m @ [entryOf f]"
    using update_absent [OF fresh] by simp
  have "distinct (map fst (m @ [entryOf f]) @ map name fs)"
    using Cons.prems by (auto simp: entryOf_def)
  from Cons.IH [OF this] show ?case by (simp add: upd)
qed

lemma initialMap_distinct: "distinct (map fst (initialMap fs))"
  unfolding initialMap_fold by (rule fold_update_distinct) simp

lemma initialMap_keys: "fst ` set (initialMap fs) = name ` set fs"
  unfolding initialMap_fold by (simp add: fold_update_keys)

lemma initialMap_of_distinct:
  "distinct (map name fs) \<Longrightarrow> initialMap fs = map entryOf fs"
  unfolding initialMap_fold using fold_update_fresh [of "[]" fs] by simp

lemma toFiles_entries: "toFiles (map entryOf fs) = fs"
  by (induction fs) (simp_all add: toFiles_def entryOf_def)

lemma entries_toFiles: "map entryOf (toFiles m) = m"
  by (induction m) (auto simp: toFiles_def entryOf_def)

lemma names_toFiles: "map name (toFiles m) = map fst m"
  by (induction m) (auto simp: toFiles_def)

lemma toFiles_initialMap: "distinct (map name fs) \<Longrightarrow> toFiles (initialMap fs) = fs"
  by (simp add: initialMap_of_distinct toFiles_entries)

lemma initialMap_toFiles: "distinct (map fst m) \<Longrightarrow> initialMap (toFiles m) = m"
  by (simp add: initialMap_of_distinct names_toFiles entries_toFiles)

lemma deleteAll_filter: "deleteAll names m = filter (\<lambda>e. fst e \<notin> set names) m"
proof (induction names arbitrary: m)
  case Nil
  show ?case by (simp add: deleteAll_def)
next
  case (Cons n names)
  have "deleteAll (n # names) m = deleteAll names (AList.delete n m)"
    by (simp add: deleteAll_def)
  also have "\<dots> = filter (\<lambda>e. fst e \<notin> set names) (AList.delete n m)"
    by (rule Cons.IH)
  also have "\<dots> = filter (\<lambda>e. fst e \<notin> set (n # names)) m"
    by (auto simp: AList.delete_eq intro: filter_cong)
  finally show ?case .
qed

lemma deleteAll_distinct: "distinct (map fst m) \<Longrightarrow> distinct (map fst (deleteAll names m))"
  by (simp add: deleteAll_filter distinct_map_filter)

lemma deleteAll_keys: "fst ` set (deleteAll names m) = fst ` set m - set names"
  by (auto simp: deleteAll_filter)

lemma deleteAll_absent: "set names \<inter> fst ` set m = {} \<Longrightarrow> deleteAll names m = m"
  by (auto simp: deleteAll_filter filter_id_conv)

lemma applyOperation_keys: "map fst (fst (applyOperation st op)) = map fst (fst st)"
proof (cases "map_of (fst st) (op_fileName op)")
  case None
  then show ?thesis by (simp add: applyOperation_def)
next
  case (Some fd)
  then have "op_fileName op \<in> fst ` set (fst st)"
    by (metis domI dom_map_of_conv_image_fst)
  then show ?thesis using Some by (simp add: applyOperation_def update_present_keys)
qed

lemma applyOperations_keys: "map fst (fst (foldl applyOperation st ops)) = map fst (fst st)"
  by (induction ops arbitrary: st) (simp_all add: applyOperation_keys)

lemma applyOperation_absent:
  "map_of (fst st) (op_fileName op) = None \<Longrightarrow> fst (applyOperation st op) = fst st"
  by (simp add: applyOperation_def)

lemma applyOperation_other:
  "n \<noteq> op_fileName op \<Longrightarrow> map_of (fst (applyOperation st op)) n = map_of (fst st) n"
  by (cases "map_of (fst st) (op_fileName op)") (simp_all add: applyOperation_def update_conv')

lemma applyOperation_log_independent:
  "fst (applyOperation (m, l) op) = fst (applyOperation (m, l') op)"
  by (simp add: applyOperation_def split: option.splits)

lemma applyOperations_log_independent:
  "fst (foldl applyOperation (m, l) ops) = fst (foldl applyOperation (m, l') ops)"
proof (induction ops arbitrary: m l l')
  case Nil
  show ?case by simp
next
  case (Cons op ops)
  obtain m1 l1 where 1: "applyOperation (m, l) op = (m1, l1)" by (cases "applyOperation (m, l) op")
  obtain m2 l2 where 2: "applyOperation (m, l') op = (m2, l2)" by (cases "applyOperation (m, l') op")
  have "m1 = m2" using applyOperation_log_independent [of m l op l'] 1 2 by simp
  then show ?case using Cons.IH [of m1 l1 l2] 1 2 by simp
qed

lemma applyNewFile_keys:
  "fst ` set (fst (applyNewFile st nf)) = insert (fileName nf) (fst ` set (fst st))"
  by (simp add: applyNewFile_def dom_update)

lemma applyNewFile_distinct:
  "distinct (map fst (fst st)) \<Longrightarrow> distinct (map fst (fst (applyNewFile st nf)))"
  by (simp add: applyNewFile_def distinct_update)

lemma applyNewFiles_keys:
  "fst ` set (fst (foldl applyNewFile st entries)) = fst ` set (fst st) \<union> fileName ` set entries"
  by (induction entries arbitrary: st) (auto simp: applyNewFile_keys)

lemma applyNewFiles_distinct:
  "distinct (map fst (fst st)) \<Longrightarrow> distinct (map fst (fst (foldl applyNewFile st entries)))"
  by (induction entries arbitrary: st) (simp_all add: applyNewFile_distinct)

lemma applyNewFile_log_independent:
  "fst (applyNewFile (m, l) nf) = fst (applyNewFile (m, l') nf)"
  by (simp add: applyNewFile_def)

lemma applyNewFiles_log_independent:
  "fst (foldl applyNewFile (m, l) entries) = fst (foldl applyNewFile (m, l') entries)"
proof (induction entries arbitrary: m l l')
  case Nil
  show ?case by simp
next
  case (Cons nf entries)
  obtain m1 l1 where 1: "applyNewFile (m, l) nf = (m1, l1)" by (cases "applyNewFile (m, l) nf")
  obtain m2 l2 where 2: "applyNewFile (m, l') nf = (m2, l2)" by (cases "applyNewFile (m, l') nf")
  have "m1 = m2" using applyNewFile_log_independent [of m l nf l'] 1 2 by simp
  then show ?case using Cons.IH [of m1 l1 l2] 1 2 by simp
qed

lemma workingSet_distinct: "distinct (map fst (workingSet fs plan))"
  by (simp add: workingSet_def initialMap_distinct deleteAll_distinct split: option.splits)

lemma runPlan_distinct: "distinct (map fst (fst (runPlan fs plan)))"
proof -
  have "distinct (map fst (fst (foldl applyOperation (workingSet fs plan, []) (operations plan))))"
    by (simp add: applyOperations_keys workingSet_distinct)
  then show ?thesis
    by (simp add: runPlan_def Let_def applyNewFiles_distinct split: option.splits)
qed

section \<open>A call, step by step\<close>

lemma workingSet_cong: "deleteFiles plan' = deleteFiles plan \<Longrightarrow> workingSet fs plan' = workingSet fs plan"
  by (simp add: workingSet_def)

lemma workingSet_toFiles_none:
  "distinct (map fst m) \<Longrightarrow> deleteFiles plan = None \<Longrightarrow> workingSet (toFiles m) plan = m"
  by (simp add: workingSet_def initialMap_toFiles)

lemma runPlan_map:
  "fst (runPlan fs plan) =
     fst (foldl applyNewFile
            (fst (foldl applyOperation (workingSet fs plan, []) (operations plan)), [])
            (case newFiles plan of None \<Rightarrow> [] | Some entries \<Rightarrow> entries))"
proof -
  obtain m l where st: "foldl applyOperation (workingSet fs plan, []) (operations plan) = (m, l)"
    by (cases "foldl applyOperation (workingSet fs plan, []) (operations plan)")
  show ?thesis
    using applyNewFiles_log_independent [of m l _ "[]"]
    by (simp add: runPlan_def Let_def st split: option.splits)
qed

lemma operations_emptyPlan [simp]:
  "operations emptyPlan = []"
  "operations (emptyPlan\<lparr>deleteFiles := d\<rparr>) = []"
  "operations (emptyPlan\<lparr>newFiles := n\<rparr>) = []"
  "operations (emptyPlan\<lparr>delete := Some ds\<rparr>) = map Del ds"
  "operations (emptyPlan\<lparr>modify := Some ms\<rparr>) = map Mod ms"
  "operations (emptyPlan\<lparr>delete := None\<rparr>) = []"
  "operations (emptyPlan\<lparr>modify := None\<rparr>) = []"
  by (simp_all add: operations_def emptyPlan_def)

lemma fields_emptyPlan [simp]:
  "deleteFiles emptyPlan = None" "newFiles emptyPlan = None"
  "delete emptyPlan = None" "modify emptyPlan = None"
  by (simp_all add: emptyPlan_def)

lemma applyChanges_deleteFiles_only:
  "applyChanges fs (emptyPlan\<lparr>deleteFiles := d\<rparr>) = toFiles (workingSet fs (emptyPlan\<lparr>deleteFiles := d\<rparr>))"
  by (simp add: applyChanges_def runPlan_map)

lemma applyChanges_operations_only:
  assumes "distinct (map fst m)" and "deleteFiles plan = None" and "newFiles plan = None"
  shows "applyChanges (toFiles m) plan = toFiles (fst (foldl applyOperation (m, []) (operations plan)))"
  using assms by (simp add: applyChanges_def runPlan_map workingSet_toFiles_none)

lemma applyChanges_newFiles_only:
  assumes "distinct (map fst m)"
  shows "applyChanges (toFiles m) (emptyPlan\<lparr>newFiles := n\<rparr>) =
    toFiles (fst (foldl applyNewFile (m, []) (case n of None \<Rightarrow> [] | Some entries \<Rightarrow> entries)))"
  using assms by (simp add: applyChanges_def runPlan_map workingSet_toFiles_none)

lemma operations_map_distinct:
  "distinct (map fst m) \<Longrightarrow> distinct (map fst (fst (foldl applyOperation (m, l) ops)))"
  by (simp add: applyOperations_keys)

lemma foldl_applyOperation_append_map:
  "fst (foldl applyOperation (m, []) (ops1 @ ops2)) =
   fst (foldl applyOperation (fst (foldl applyOperation (m, []) ops1), []) ops2)"
proof -
  obtain m1 l1 where st: "foldl applyOperation (m, []) ops1 = (m1, l1)"
    by (cases "foldl applyOperation (m, []) ops1")
  show ?thesis
    using applyOperations_log_independent [of m1 l1 ops2 "[]"] by (simp add: st)
qed

lemma applyChanges_staged:
  "applyChanges fs plan =
     applyChanges
       (applyChanges
          (applyChanges
             (applyChanges fs (emptyPlan\<lparr>deleteFiles := deleteFiles plan\<rparr>))
             (emptyPlan\<lparr>delete := delete plan\<rparr>))
          (emptyPlan\<lparr>modify := modify plan\<rparr>))
       (emptyPlan\<lparr>newFiles := newFiles plan\<rparr>)"
proof -
  define m0 where "m0 = workingSet fs plan"
  define dels where "dels = map Del (case delete plan of None \<Rightarrow> [] | Some ds \<Rightarrow> ds)"
  define mods where "mods = map Mod (case modify plan of None \<Rightarrow> [] | Some ms \<Rightarrow> ms)"
  define m1 where "m1 = fst (foldl applyOperation (m0, []) dels)"
  define m2 where "m2 = fst (foldl applyOperation (m1, []) mods)"
  have d0: "distinct (map fst m0)" unfolding m0_def by (rule workingSet_distinct)
  have d1: "distinct (map fst m1)" unfolding m1_def using d0 by (rule operations_map_distinct)
  have d2: "distinct (map fst m2)" unfolding m2_def using d1 by (rule operations_map_distinct)
  have s1: "applyChanges fs (emptyPlan\<lparr>deleteFiles := deleteFiles plan\<rparr>) = toFiles m0"
  proof -
    have "workingSet fs (emptyPlan\<lparr>deleteFiles := deleteFiles plan\<rparr>) = workingSet fs plan"
      by (simp add: workingSet_def)
    then show ?thesis by (simp add: applyChanges_deleteFiles_only m0_def)
  qed
  have o1: "operations (emptyPlan\<lparr>delete := delete plan\<rparr>) = dels"
    unfolding dels_def by (cases "delete plan") simp_all
  have o2: "operations (emptyPlan\<lparr>modify := modify plan\<rparr>) = mods"
    unfolding mods_def by (cases "modify plan") simp_all
  have s2: "applyChanges (toFiles m0) (emptyPlan\<lparr>delete := delete plan\<rparr>) = toFiles m1"
    unfolding m1_def using d0 by (simp add: applyChanges_operations_only o1)
  have s3: "applyChanges (toFiles m1) (emptyPlan\<lparr>modify := modify plan\<rparr>) = toFiles m2"
    unfolding m2_def using d1 by (simp add: applyChanges_operations_only o2)
  have ops: "operations plan = dels @ mods"
    by (simp add: operations_def dels_def mods_def)
  have m2': "m2 = fst (foldl applyOperation (m0, []) (operations plan))"
    unfolding m2_def m1_def ops by (rule foldl_applyOperation_append_map [symmetric])
  have "applyChanges (toFiles m2) (emptyPlan\<lparr>newFiles := newFiles plan\<rparr>) = applyChanges fs plan"
    using d2 by (simp add: applyChanges_newFiles_only) (simp add: applyChanges_def runPlan_map m2' m0_def)
  then show ?thesis by (simp add: s1 s2 s3)
qed

lemma applyChanges_split_operations:
  assumes "deleteFiles plan = None" "newFiles plan = None" "deleteFiles plan1 = None" "newFiles plan1 = None"
    "deleteFiles plan2 = None" "newFiles plan2 = None"
    and "operations plan = operations plan1 @ operations plan2"
  shows "applyChanges fs plan = applyChanges (applyChanges fs plan1) plan2"
proof -
  define m0 where "m0 = initialMap fs"
  have d0: "distinct (map fst m0)" unfolding m0_def by (rule initialMap_distinct)
  define m1 where "m1 = fst (foldl applyOperation (m0, []) (operations plan1))"
  have d1: "distinct (map fst m1)" unfolding m1_def using d0 by (rule operations_map_distinct)
  have w: "workingSet fs plan = m0" "workingSet fs plan1 = m0"
    using assms by (simp_all add: workingSet_def m0_def)
  have 1: "applyChanges fs plan1 = toFiles m1"
    using assms by (simp add: applyChanges_def runPlan_map w m1_def)
  have 2: "applyChanges (toFiles m1) plan2 = toFiles (fst (foldl applyOperation (m1, []) (operations plan2)))"
    using d1 assms by (simp add: applyChanges_operations_only)
  have 3: "applyChanges fs plan = toFiles (fst (foldl applyOperation (m0, []) (operations plan1 @ operations plan2)))"
    using assms by (simp add: applyChanges_def runPlan_map w)
  have "fst (foldl applyOperation (m0, []) (operations plan1 @ operations plan2))
      = fst (foldl applyOperation (m1, []) (operations plan2))"
    unfolding m1_def by (rule foldl_applyOperation_append_map)
  then show ?thesis by (simp only: 1 2 3)
qed

lemma skip_operation:
  assumes "operations plan = ops1 @ op # ops2" and "operations plan' = ops1 @ ops2"
    and "deleteFiles plan' = deleteFiles plan" and "newFiles plan' = newFiles plan"
    and "fst (applyOperation (foldl applyOperation (workingSet fs plan, []) ops1) op)
         = fst (foldl applyOperation (workingSet fs plan, []) ops1)"
  shows "applyChanges fs plan = applyChanges fs plan'"
proof -
  obtain m1 l1 where st: "foldl applyOperation (workingSet fs plan, []) ops1 = (m1, l1)"
    by (cases "foldl applyOperation (workingSet fs plan, []) ops1")
  obtain m2 l2 where st2: "applyOperation (m1, l1) op = (m2, l2)"
    by (cases "applyOperation (m1, l1) op")
  have "m2 = m1" using assms(5) st st2 by simp
  then have "fst (foldl applyOperation (workingSet fs plan, []) (ops1 @ op # ops2))
      = fst (foldl applyOperation (workingSet fs plan, []) (ops1 @ ops2))"
    using applyOperations_log_independent [of m1 l2 ops2 l1] by (simp add: st st2)
  then show ?thesis
    using assms(1-4)
    by (simp add: applyChanges_def runPlan_map workingSet_cong [OF assms(3)])
qed

lemma deleteFiles_idempotent:
  "applyChanges (applyChanges fs (emptyPlan\<lparr>deleteFiles := Some names\<rparr>)) (emptyPlan\<lparr>deleteFiles := Some names\<rparr>)
   = applyChanges fs (emptyPlan\<lparr>deleteFiles := Some names\<rparr>)"
proof -
  define m where "m = workingSet fs (emptyPlan\<lparr>deleteFiles := Some names\<rparr>)"
  have d: "distinct (map fst m)" unfolding m_def by (rule workingSet_distinct)
  have k: "set names \<inter> fst ` set m = {}"
    unfolding m_def by (auto simp: workingSet_def deleteAll_keys)
  have "workingSet (toFiles m) (emptyPlan\<lparr>deleteFiles := Some names\<rparr>) = m"
    using d k by (simp add: workingSet_def initialMap_toFiles deleteAll_absent)
  then show ?thesis
    by (simp add: applyChanges_deleteFiles_only m_def [symmetric])
qed

lemma applyChanges_emptyPlan: "applyChanges fs emptyPlan = toFiles (initialMap fs)"
  by (simp add: applyChanges_def runPlan_map workingSet_def)

lemma deleteFiles_absent:
  assumes "set names \<inter> name ` set fs = {}"
  shows "applyChanges fs (emptyPlan\<lparr>deleteFiles := Some names\<rparr>) = applyChanges fs emptyPlan"
proof -
  have "workingSet fs (emptyPlan\<lparr>deleteFiles := Some names\<rparr>) = initialMap fs"
    using assms by (simp add: workingSet_def deleteAll_absent initialMap_keys)
  then show ?thesis
    by (simp only: applyChanges_deleteFiles_only applyChanges_emptyPlan)
qed


section \<open>Properties of the session history\<close>

lemma pushHistory_Cons: "pushHistory s h = s # take 9 h"
  by (simp add: pushHistory_def MAX_HISTORY_LENGTH_def)

lemma length_pushHistory: "length (pushHistory s h) \<le> MAX_HISTORY_LENGTH"
  by (simp add: pushHistory_def)

lemma pushes_take:
  "length h \<le> MAX_HISTORY_LENGTH \<Longrightarrow>
   foldl (\<lambda>h s. pushHistory s h) h ss = take MAX_HISTORY_LENGTH (rev ss @ h)"
proof (induction ss arbitrary: h)
  case Nil
  then show ?case by simp
next
  case (Cons s ss)
  have "length (pushHistory s h) \<le> MAX_HISTORY_LENGTH"
    by (rule length_pushHistory)
  then have "foldl (\<lambda>h s. pushHistory s h) (pushHistory s h) ss
      = take MAX_HISTORY_LENGTH (rev ss @ pushHistory s h)"
    by (rule Cons.IH)
  then show ?case by (simp add: pushHistory_def)
qed

lemma reachable_bounded: "reachable st \<Longrightarrow> length (history st) \<le> MAX_HISTORY_LENGTH"
proof (induction rule: reachable.induct)
  case (undo st)
  then show ?case
    by (simp add: handleUndoClick_def popHistory_def resetState_def split: list.splits)
qed (auto simp add: pushSnapshot_def rollbackSnapshot_def resetState_def length_pushHistory)

text \<open>
  In \<^verbatim>\<open>handleGenerateOrModify\<close> the call of \<^verbatim>\<open>resetState\<close> comes right before the push, and
  in \<^verbatim>\<open>handleUndoClick\<close> right after the pop; the history that either handler leaves
  holds at most the snapshot just pushed, and so does every history of a session.
\<close>

lemma reset_then_push:
  "history (handleGenerateOrModify st) = (if files' st = [] then [] else [files' st])"
  by (simp add: handleGenerateOrModify_def pushSnapshot_def resetState_def pushHistory_def
        MAX_HISTORY_LENGTH_def)

lemma undo_clears_history: "history (handleUndoClick (st\<lparr>history := s # h\<rparr>)) = []"
  by (simp add: handleUndoClick_def popHistory_def resetState_def)

lemma session_history: "session st \<Longrightarrow> length (history st) \<le> 1"
proof (induction rule: session.induct)
  case (generate st)
  show ?case by (simp add: reset_then_push)
next
  case (undo st)
  then show ?case
    by (simp add: handleUndoClick_def popHistory_def resetState_def split: list.splits)
qed (auto simp add: rollbackSnapshot_def resetState_def handleApproveClick_def)

text \<open>
  The updater of the push alone does what C9 describes: it puts the new snapshot in
  front and keeps at most 9 of the previous ones, and the pop yields the snapshot pushed
  last and the stack without it, nothing on the empty stack.
\<close>

lemma push_then_pop:
  "popHistory (pushHistory s h) = Some (s, take 9 h)" "popHistory [] = None"
  by (simp_all add: pushHistory_Cons popHistory_def)

text \<open>
  C9 in a session of eleven generations, each on a page of its own: the stack of the
  claim would hold the pages 11 down to 2, ten snapshots. The history of the component
  holds one, the page of the eleventh generation, because \<^verbatim>\<open>resetState\<close> empties it before
  each push; approving a generation empties it as well. One undo restores page 11 and
  leaves the history empty, so a second undo does nothing: none of the pages 1 to 10 can
  be restored.
\<close>

theorem history_emptied_before_push:
  "foldl (\<lambda>h s. pushHistory s h) [] elevenPages
     = map page [11, 10, 9, 8, 7, 6, 5, 4, 3, 2]
   \<and> length (foldl (\<lambda>h s. pushHistory s h) [] elevenPages) = 10
   \<and> history (foldl (\<lambda>st fs. handleGenerateOrModify (st\<lparr>files' := fs\<rparr>))
                \<lparr>files' = [], history = []\<rparr> elevenPages)
     = [page 11]
   \<and> length (history (foldl (\<lambda>st fs. handleGenerateOrModify (st\<lparr>files' := fs\<rparr>))
                        \<lparr>files' = [], history = []\<rparr> elevenPages)) = 1
   \<and> history (foldl (\<lambda>st fs. handleApproveClick fs (handleGenerateOrModify st))
                \<lparr>files' = page 0, history = []\<rparr> elevenPages)
     = []
   \<and> handleUndoClick (foldl (\<lambda>st fs. handleGenerateOrModify (st\<lparr>files' := fs\<rparr>))
                        \<lparr>files' = [], history = []\<rparr> elevenPages)
     = \<lparr>files' = page 11, history = []\<rparr>
   \<and> handleUndoClick (handleUndoClick (foldl (\<lambda>st fs. handleGenerateOrModify (st\<lparr>files' := fs\<rparr>))
                                         \<lparr>files' = [], history = []\<rparr> elevenPages))
     = \<lparr>files' = page 11, history = []\<rparr>"
  by code_simp


section \<open>Deletions on image files\<close>

lemma applyOperation_unchanged:
  assumes "map_of m (op_fileName op) = Some fileData"
    and "editContent fileData op = (content fileData, diagnostics)"
  shows "applyOperation (m, console) op = (m, console @ diagnostics)"
proof -
  have "fileData\<lparr>content := content fileData\<rparr> = fileData" by simp
  moreover have "AList.update (op_fileName op) fileData m = m"
    using assms(1) by (rule update_triv)
  ultimately show ?thesis using assms by (simp add: applyOperation_def)
qed

lemma map_of_entries:
  "distinct (map name fs) \<Longrightarrow> f \<in> set fs \<Longrightarrow> map_of (map entryOf fs) (name f) = Some (snd (entryOf f))"
proof (induction fs)
  case Nil
  then show ?case by simp
next
  case (Cons g fs)
  show ?case
  proof (cases "f = g")
    case True
    then show ?thesis by (simp add: entryOf_def)
  next
    case False
    then have "f \<in> set fs" using Cons.prems by simp
    moreover have "name g \<noteq> name f" using Cons.prems \<open>f \<in> set fs\<close> by auto
    ultimately show ?thesis using Cons by (simp add: entryOf_def)
  qed
qed

text \<open>
  C10: a Deletion that targets a record whose MIME type begins with \<^verbatim>\<open>image/\<close> changes
  neither the working map nor the console; a call whose plan holds only such a Deletion
  returns the files it was given and prints nothing.
\<close>

theorem image_deletion_ignored:
  "(map_of m (fileName d) = Some fileData \<and> startsWith (type fileData) ''image/''
      \<longrightarrow> applyOperation (m, console) (Del d) = (m, console))
   \<and> (distinct (map name fs) \<and> f \<in> set fs \<and> startsWith (type f) ''image/'' \<and> fileName d = name f
      \<longrightarrow> applyChanges fs (emptyPlan\<lparr>delete := Some [d]\<rparr>) = fs
          \<and> consoleOf fs (emptyPlan\<lparr>delete := Some [d]\<rparr>) = [])"
proof -
  have step: "applyOperation (m, console) (Del d) = (m, console)"
    if "map_of m (fileName d) = Some fileData" "startsWith (type fileData) ''image/''"
    for m console fileData
    using applyOperation_unchanged [of m "Del d" fileData "[]" console] that
    by (simp add: editContent_image_deletion)
  have call: "applyChanges fs (emptyPlan\<lparr>delete := Some [d]\<rparr>) = fs
          \<and> consoleOf fs (emptyPlan\<lparr>delete := Some [d]\<rparr>) = []"
    if h: "distinct (map name fs)" "f \<in> set fs" "startsWith (type f) ''image/''" "fileName d = name f"
  proof -
    have w: "workingSet fs (emptyPlan\<lparr>delete := Some [d]\<rparr>) = map entryOf fs"
      using h(1) by (simp add: workingSet_def initialMap_of_distinct)
    have l: "map_of (map entryOf fs) (fileName d) = Some (snd (entryOf f))"
      using map_of_entries [OF h(1,2)] h(4) by simp
    have t: "startsWith (type (snd (entryOf f))) ''image/''"
      using h(3) by (simp add: entryOf_def)
    have "runPlan fs (emptyPlan\<lparr>delete := Some [d]\<rparr>) = (map entryOf fs, [])"
      using step [OF l t, of "[]"] by (simp add: runPlan_def w)
    then show ?thesis by (simp add: applyChanges_def consoleOf_def toFiles_entries)
  qed
  from step call show ?thesis by blast
qed

theorem image_deletion_ignored_witness:
  "map_of [(''logo.png'', \<lparr>content = ''data:image/png;base64,AAAA'', type = ''image/png''\<rparr>)] ''logo.png''
     = Some \<lparr>content = ''data:image/png;base64,AAAA'', type = ''image/png''\<rparr>
   \<and> startsWith ''image/png'' ''image/''
   \<and> applyOperation
        ([(''logo.png'', \<lparr>content = ''data:image/png;base64,AAAA'', type = ''image/png''\<rparr>)], [])
        (Del \<lparr>fileName = ''logo.png'', before = '''', codeToDelete = ''AAAA'', after = ''''\<rparr>)
      = ([(''logo.png'', \<lparr>content = ''data:image/png;base64,AAAA'', type = ''image/png''\<rparr>)], [])
   \<and> applyChanges [\<lparr>content = ''data:image/png;base64,AAAA'', type = ''image/png'', name = ''logo.png''\<rparr>]
        (emptyPlan\<lparr>delete := Some [\<lparr>fileName = ''logo.png'', before = '''', codeToDelete = ''AAAA'', after = ''''\<rparr>]\<rparr>)
      = [\<lparr>content = ''data:image/png;base64,AAAA'', type = ''image/png'', name = ''logo.png''\<rparr>]
   \<and> consoleOf [\<lparr>content = ''data:image/png;base64,AAAA'', type = ''image/png'', name = ''logo.png''\<rparr>]
        (emptyPlan\<lparr>delete := Some [\<lparr>fileName = ''logo.png'', before = '''', codeToDelete = ''AAAA'', after = ''''\<rparr>]\<rparr>)
      = []"
proof -
  have a: "map_of [(''logo.png'', \<lparr>content = ''data:image/png;base64,AAAA'', type = ''image/png''\<rparr>)] ''logo.png''
     = Some \<lparr>content = ''data:image/png;base64,AAAA'', type = ''image/png''\<rparr>"
    by simp
  have b: "startsWith ''image/png'' ''image/''"
    by (simp add: startsWith_def)
  have c: "distinct (map name [\<lparr>content = ''data:image/png;base64,AAAA'', type = ''image/png'', name = ''logo.png''\<rparr>])"
    by simp
  note inst = image_deletion_ignored
    [of "[(''logo.png'', \<lparr>content = ''data:image/png;base64,AAAA'', type = ''image/png''\<rparr>)]"
        "\<lparr>fileName = ''logo.png'', before = '''', codeToDelete = ''AAAA'', after = ''''\<rparr>"
        "\<lparr>content = ''data:image/png;base64,AAAA'', type = ''image/png''\<rparr>"
        "[]"
        "[\<lparr>content = ''data:image/png;base64,AAAA'', type = ''image/png'', name = ''logo.png''\<rparr>]"
        "\<lparr>content = ''data:image/png;base64,AAAA'', type = ''image/png'', name = ''logo.png''\<rparr>"]
  from inst a b c show ?thesis by simp
qed


section \<open>Order of the steps\<close>

lemma applyOperation_missing:
  "map_of m (op_fileName op) = None \<Longrightarrow>
   applyOperation (m, console) op = (m, console @ [WarnFileNotFound (op_fileName op)])"
  by (simp add: applyOperation_def)

lemma workingSet_keys:
  "fst ` set (workingSet fs plan)
   = name ` set fs - set (case deleteFiles plan of None \<Rightarrow> [] | Some names \<Rightarrow> names)"
  by (simp add: workingSet_def initialMap_keys deleteAll_keys split: option.splits)

lemma deleted_file_operation_skipped:
  assumes "deleteFiles plan = Some names" and "op_fileName op \<in> set names"
    and "operations plan = ops1 @ op # ops2" and "operations plan' = ops1 @ ops2"
    and "deleteFiles plan' = deleteFiles plan" and "newFiles plan' = newFiles plan"
  shows "applyChanges fs plan = applyChanges fs plan'"
proof -
  have "op_fileName op \<notin> fst ` set (workingSet fs plan)"
    using assms(1,2) by (simp add: workingSet_keys)
  then have "op_fileName op \<notin> set (map fst (fst (foldl applyOperation (workingSet fs plan, []) ops1)))"
    by (simp add: applyOperations_keys)
  then have "map_of (fst (foldl applyOperation (workingSet fs plan, []) ops1)) (op_fileName op) = None"
    by (simp add: map_of_eq_None_iff)
  then have "fst (applyOperation (foldl applyOperation (workingSet fs plan, []) ops1) op)
         = fst (foldl applyOperation (workingSet fs plan, []) ops1)"
    by (rule applyOperation_absent)
  with assms(3-6) show ?thesis by (rule skip_operation)
qed

lemma deleteAll_Nil: "deleteAll [] m = m"
  by (simp add: deleteAll_def)

lemma applyChanges_phases:
  "applyChanges fs plan =
     toFiles (fst (foldl applyNewFile
       (foldl applyOperation
          (deleteAll (case deleteFiles plan of None \<Rightarrow> [] | Some names \<Rightarrow> names) (initialMap fs), [])
          (map Del (case delete plan of None \<Rightarrow> [] | Some ds \<Rightarrow> ds)
             @ map Mod (case modify plan of None \<Rightarrow> [] | Some ms \<Rightarrow> ms)))
       (case newFiles plan of None \<Rightarrow> [] | Some entries \<Rightarrow> entries)))"
proof -
  have w: "workingSet fs plan
      = deleteAll (case deleteFiles plan of None \<Rightarrow> [] | Some names \<Rightarrow> names) (initialMap fs)"
    by (cases "deleteFiles plan") (simp_all add: workingSet_def deleteAll_Nil)
  have r: "runPlan fs plan
      = foldl applyNewFile (foldl applyOperation (workingSet fs plan, []) (operations plan))
          (case newFiles plan of None \<Rightarrow> [] | Some entries \<Rightarrow> entries)"
    by (cases "newFiles plan") (simp_all add: runPlan_def)
  show ?thesis
    by (simp only: applyChanges_def r w operations_def)
qed

text \<open>
  C4: a call runs the whole-file deletions on the map of the input, then the
  operations, the \<^verbatim>\<open>delete\<close> entries first and the \<^verbatim>\<open>modify\<close> entries after them, each list
  in its order and each operation on the state that the one before it left, then the new
  files; a plan with one \<^verbatim>\<open>delete\<close> (or \<^verbatim>\<open>modify\<close>) entry applies that operation to the map
  of the input. So a call is the composition of four calls, one per group of the plan,
  in the order whole-file deletions, \<^verbatim>\<open>delete\<close> entries, \<^verbatim>\<open>modify\<close> entries, new files; a list of
  \<^verbatim>\<open>delete\<close> (or \<^verbatim>\<open>modify\<close>) entries acts as its first part followed by its second part, so
  that each entry works on the result of the entries before it; applying a plan of
  whole-file deletions twice is applying it once, and deleting absent names changes
  nothing; an operation whose file is not in the working map leaves the map as it is, in
  particular when the file is among the whole-file deletions of the same plan.
\<close>

theorem plan_order_and_composition:
  "applyChanges fs plan =
     applyChanges
       (applyChanges
          (applyChanges
             (applyChanges fs (emptyPlan\<lparr>deleteFiles := deleteFiles plan\<rparr>))
             (emptyPlan\<lparr>delete := delete plan\<rparr>))
          (emptyPlan\<lparr>modify := modify plan\<rparr>))
       (emptyPlan\<lparr>newFiles := newFiles plan\<rparr>)
   \<and> applyChanges fs (emptyPlan\<lparr>delete := Some (ds1 @ ds2)\<rparr>)
       = applyChanges (applyChanges fs (emptyPlan\<lparr>delete := Some ds1\<rparr>)) (emptyPlan\<lparr>delete := Some ds2\<rparr>)
   \<and> applyChanges fs (emptyPlan\<lparr>modify := Some (ms1 @ ms2)\<rparr>)
       = applyChanges (applyChanges fs (emptyPlan\<lparr>modify := Some ms1\<rparr>)) (emptyPlan\<lparr>modify := Some ms2\<rparr>)
   \<and> applyChanges (applyChanges fs (emptyPlan\<lparr>deleteFiles := Some names\<rparr>))
         (emptyPlan\<lparr>deleteFiles := Some names\<rparr>)
       = applyChanges fs (emptyPlan\<lparr>deleteFiles := Some names\<rparr>)
   \<and> (set names \<inter> name ` set fs = {}
        \<longrightarrow> applyChanges fs (emptyPlan\<lparr>deleteFiles := Some names\<rparr>) = applyChanges fs emptyPlan)
   \<and> (map_of m (op_fileName op) = None
        \<longrightarrow> applyOperation (m, console) op = (m, console @ [WarnFileNotFound (op_fileName op)]))
   \<and> (deleteFiles plan = Some names \<and> op_fileName op \<in> set names
        \<and> operations plan = ops1 @ op # ops2 \<and> operations plan' = ops1 @ ops2
        \<and> deleteFiles plan' = deleteFiles plan \<and> newFiles plan' = newFiles plan
        \<longrightarrow> applyChanges fs plan = applyChanges fs plan')
   \<and> applyChanges fs plan =
       toFiles (fst (foldl applyNewFile
         (foldl applyOperation
            (deleteAll (case deleteFiles plan of None \<Rightarrow> [] | Some names \<Rightarrow> names) (initialMap fs), [])
            (map Del (case delete plan of None \<Rightarrow> [] | Some ds \<Rightarrow> ds)
               @ map Mod (case modify plan of None \<Rightarrow> [] | Some ms \<Rightarrow> ms)))
         (case newFiles plan of None \<Rightarrow> [] | Some entries \<Rightarrow> entries)))
   \<and> applyChanges fs (emptyPlan\<lparr>delete := Some [d]\<rparr>)
       = toFiles (fst (applyOperation (initialMap fs, []) (Del d)))
   \<and> applyChanges fs (emptyPlan\<lparr>modify := Some [mo]\<rparr>)
       = toFiles (fst (applyOperation (initialMap fs, []) (Mod mo)))"
proof -
  have phases: "applyChanges fs plan =
       toFiles (fst (foldl applyNewFile
         (foldl applyOperation
            (deleteAll (case deleteFiles plan of None \<Rightarrow> [] | Some names \<Rightarrow> names) (initialMap fs), [])
            (map Del (case delete plan of None \<Rightarrow> [] | Some ds \<Rightarrow> ds)
               @ map Mod (case modify plan of None \<Rightarrow> [] | Some ms \<Rightarrow> ms)))
         (case newFiles plan of None \<Rightarrow> [] | Some entries \<Rightarrow> entries)))"
    by (rule applyChanges_phases)
  have oneDel: "applyChanges fs (emptyPlan\<lparr>delete := Some [d]\<rparr>)
       = toFiles (fst (applyOperation (initialMap fs, []) (Del d)))"
    by (simp add: applyChanges_phases deleteAll_def)
  have oneMod: "applyChanges fs (emptyPlan\<lparr>modify := Some [mo]\<rparr>)
       = toFiles (fst (applyOperation (initialMap fs, []) (Mod mo)))"
    by (simp add: applyChanges_phases deleteAll_def)
  have dels: "applyChanges fs (emptyPlan\<lparr>delete := Some (ds1 @ ds2)\<rparr>)
       = applyChanges (applyChanges fs (emptyPlan\<lparr>delete := Some ds1\<rparr>)) (emptyPlan\<lparr>delete := Some ds2\<rparr>)"
    by (rule applyChanges_split_operations) (simp_all add: emptyPlan_def operations_def)
  have mods: "applyChanges fs (emptyPlan\<lparr>modify := Some (ms1 @ ms2)\<rparr>)
       = applyChanges (applyChanges fs (emptyPlan\<lparr>modify := Some ms1\<rparr>)) (emptyPlan\<lparr>modify := Some ms2\<rparr>)"
    by (rule applyChanges_split_operations) (simp_all add: emptyPlan_def operations_def)
  show ?thesis
    using applyChanges_staged [of fs plan] dels mods deleteFiles_idempotent [of fs names]
      deleteFiles_absent [of names fs] applyOperation_missing [of m op console]
      deleted_file_operation_skipped [of plan names op ops1 ops2 plan' fs] phases oneDel oneMod
    by (intro conjI impI) (simp_all only:)
qed

theorem plan_order_and_composition_witness:
  "set [''gone.txt''] \<inter> name ` set [appFile, logoFile] = {}
   \<and> applyChanges [appFile, logoFile] (emptyPlan\<lparr>deleteFiles := Some [''gone.txt'']\<rparr>)
       = applyChanges [appFile, logoFile] emptyPlan
   \<and> map_of (workingSet [appFile, logoFile] (emptyPlan\<lparr>deleteFiles := Some [''logo.png'']\<rparr>))
        (op_fileName (Mod retouchLogo)) = None
   \<and> applyOperation (workingSet [appFile, logoFile] (emptyPlan\<lparr>deleteFiles := Some [''logo.png'']\<rparr>), [])
        (Mod retouchLogo)
       = (workingSet [appFile, logoFile] (emptyPlan\<lparr>deleteFiles := Some [''logo.png'']\<rparr>),
          [WarnFileNotFound ''logo.png''])
   \<and> deleteFiles (emptyPlan\<lparr>deleteFiles := Some [''logo.png''], modify := Some [retouchLogo, renameA]\<rparr>)
       = Some [''logo.png'']
   \<and> op_fileName (Mod retouchLogo) \<in> set [''logo.png'']
   \<and> operations (emptyPlan\<lparr>deleteFiles := Some [''logo.png''], modify := Some [retouchLogo, renameA]\<rparr>)
       = [] @ Mod retouchLogo # [Mod renameA]
   \<and> operations (emptyPlan\<lparr>deleteFiles := Some [''logo.png''], modify := Some [renameA]\<rparr>)
       = [] @ [Mod renameA]
   \<and> applyChanges [appFile, logoFile]
        (emptyPlan\<lparr>deleteFiles := Some [''logo.png''], modify := Some [retouchLogo, renameA]\<rparr>)
       = applyChanges [appFile, logoFile]
           (emptyPlan\<lparr>deleteFiles := Some [''logo.png''], modify := Some [renameA]\<rparr>)
   \<and> applyChanges [appFile, logoFile]
        (emptyPlan\<lparr>deleteFiles := Some [''logo.png''], modify := Some [retouchLogo, renameA]\<rparr>)
       = [\<lparr>content = ''let total = 1; let b = 2;'', type = ''text/javascript'', name = ''app.js''\<rparr>]
   \<and> applyChanges [appFile] (emptyPlan\<lparr>delete := Some [cutA]\<rparr>)
       = [\<lparr>content = ''let b = 2;'', type = ''text/javascript'', name = ''app.js''\<rparr>]
   \<and> applyChanges [appFile] (emptyPlan\<lparr>modify := Some [renameA]\<rparr>)
       = [\<lparr>content = ''let total = 1; let b = 2;'', type = ''text/javascript'', name = ''app.js''\<rparr>]
   \<and> applyChanges [appFile] (emptyPlan\<lparr>delete := Some [cutA], modify := Some [renameA]\<rparr>)
       = [\<lparr>content = ''let b = 2;'', type = ''text/javascript'', name = ''app.js''\<rparr>]
   \<and> applyChanges [appFile] (emptyPlan\<lparr>delete := Some [cutA], modify := Some [renameA]\<rparr>)
       = applyChanges (applyChanges [appFile] (emptyPlan\<lparr>delete := Some [cutA]\<rparr>))
           (emptyPlan\<lparr>modify := Some [renameA]\<rparr>)
   \<and> applyChanges (applyChanges [appFile] (emptyPlan\<lparr>modify := Some [renameA]\<rparr>))
         (emptyPlan\<lparr>delete := Some [cutA]\<rparr>)
       = [\<lparr>content = ''let total = 1; let b = 2;'', type = ''text/javascript'', name = ''app.js''\<rparr>]"
proof -
  let ?both = "emptyPlan\<lparr>delete := Some [cutA], modify := Some [renameA]\<rparr>"
  note at_both = plan_order_and_composition [where fs = "[appFile]" and plan = ?both
      and d = cutA and mo = renameA]
  have d1: "applyChanges [appFile] (emptyPlan\<lparr>delete := Some [cutA]\<rparr>)
       = toFiles (fst (applyOperation (initialMap [appFile], []) (Del cutA)))"
    by (rule at_both [THEN conjunct2, THEN conjunct2, THEN conjunct2, THEN conjunct2, THEN conjunct2,
          THEN conjunct2, THEN conjunct2, THEN conjunct2, THEN conjunct1])
  have d1v: "toFiles (fst (applyOperation (initialMap [appFile], []) (Del cutA)))
       = [\<lparr>content = ''let b = 2;'', type = ''text/javascript'', name = ''app.js''\<rparr>]"
    by code_simp
  have d2: "applyChanges [appFile] (emptyPlan\<lparr>modify := Some [renameA]\<rparr>)
       = toFiles (fst (applyOperation (initialMap [appFile], []) (Mod renameA)))"
    by (rule at_both [THEN conjunct2, THEN conjunct2, THEN conjunct2, THEN conjunct2, THEN conjunct2,
          THEN conjunct2, THEN conjunct2, THEN conjunct2, THEN conjunct2])
  have d2v: "toFiles (fst (applyOperation (initialMap [appFile], []) (Mod renameA)))
       = [\<lparr>content = ''let total = 1; let b = 2;'', type = ''text/javascript'', name = ''app.js''\<rparr>]"
    by code_simp
  have d3: "applyChanges [appFile] ?both =
       toFiles (fst (foldl applyNewFile
         (foldl applyOperation
            (deleteAll (case deleteFiles ?both of None \<Rightarrow> [] | Some names \<Rightarrow> names) (initialMap [appFile]), [])
            (map Del (case delete ?both of None \<Rightarrow> [] | Some ds \<Rightarrow> ds)
               @ map Mod (case modify ?both of None \<Rightarrow> [] | Some ms \<Rightarrow> ms)))
         (case newFiles ?both of None \<Rightarrow> [] | Some entries \<Rightarrow> entries)))"
    by (rule at_both [THEN conjunct2, THEN conjunct2, THEN conjunct2, THEN conjunct2, THEN conjunct2,
          THEN conjunct2, THEN conjunct2, THEN conjunct1])
  have d3v: "toFiles (fst (foldl applyNewFile
         (foldl applyOperation
            (deleteAll (case deleteFiles ?both of None \<Rightarrow> [] | Some names \<Rightarrow> names) (initialMap [appFile]), [])
            (map Del (case delete ?both of None \<Rightarrow> [] | Some ds \<Rightarrow> ds)
               @ map Mod (case modify ?both of None \<Rightarrow> [] | Some ms \<Rightarrow> ms)))
         (case newFiles ?both of None \<Rightarrow> [] | Some entries \<Rightarrow> entries)))
       = [\<lparr>content = ''let b = 2;'', type = ''text/javascript'', name = ''app.js''\<rparr>]"
    by code_simp
  have d4: "applyChanges [appFile] ?both
       = applyChanges (applyChanges [appFile] (emptyPlan\<lparr>delete := Some [cutA]\<rparr>))
           (emptyPlan\<lparr>modify := Some [renameA]\<rparr>)"
    by code_simp
  have d5: "applyChanges (applyChanges [appFile] (emptyPlan\<lparr>modify := Some [renameA]\<rparr>))
         (emptyPlan\<lparr>delete := Some [cutA]\<rparr>)
       = [\<lparr>content = ''let total = 1; let b = 2;'', type = ''text/javascript'', name = ''app.js''\<rparr>]"
    by code_simp
  note e1 = d1 [unfolded d1v] and e2 = d2 [unfolded d2v] and e3 = d3 [unfolded d3v]
  let ?fs = "[appFile, logoFile]"
  let ?plan = "emptyPlan\<lparr>deleteFiles := Some [''logo.png''], modify := Some [retouchLogo, renameA]\<rparr>"
  let ?plan' = "emptyPlan\<lparr>deleteFiles := Some [''logo.png''], modify := Some [renameA]\<rparr>"
  let ?m = "workingSet ?fs (emptyPlan\<lparr>deleteFiles := Some [''logo.png'']\<rparr>)"
  have h1: "set [''gone.txt''] \<inter> name ` set ?fs = {}"
    by (simp add: appFile_def logoFile_def)
  have h2: "map_of ?m (op_fileName (Mod retouchLogo)) = None"
    by code_simp
  have h3: "deleteFiles ?plan = Some [''logo.png'']"
    by simp
  have h4: "op_fileName (Mod retouchLogo) \<in> set [''logo.png'']"
    by (simp add: retouchLogo_def)
  have h5: "operations ?plan = [] @ Mod retouchLogo # [Mod renameA]"
    by (simp add: operations_def emptyPlan_def)
  have h6: "operations ?plan' = [] @ [Mod renameA]"
    by (simp add: operations_def emptyPlan_def)
  have h7: "deleteFiles ?plan' = deleteFiles ?plan" "newFiles ?plan' = newFiles ?plan"
    by simp_all
  note inst = plan_order_and_composition
    [of ?fs ?plan "[]" "[]" "[]" "[]" "[''gone.txt'']" ?m "Mod retouchLogo" "[]" "[]" "[Mod renameA]" ?plan']
  have c1: "applyChanges ?fs (emptyPlan\<lparr>deleteFiles := Some [''gone.txt'']\<rparr>) = applyChanges ?fs emptyPlan"
    using inst h1 by blast
  have c2: "applyOperation (?m, []) (Mod retouchLogo) = (?m, [] @ [WarnFileNotFound (op_fileName (Mod retouchLogo))])"
    using inst h2 by blast
  note inst' = plan_order_and_composition
    [of ?fs ?plan "[]" "[]" "[]" "[]" "[''logo.png'']" ?m "Mod retouchLogo" "[]" "[]" "[Mod renameA]" ?plan']
  have c3: "applyChanges ?fs ?plan = applyChanges ?fs ?plan'"
    using inst' h3 h4 h5 h6 h7 by blast
  have c4: "applyChanges ?fs ?plan' = [\<lparr>content = ''let total = 1; let b = 2;'', type = ''text/javascript'', name = ''app.js''\<rparr>]"
    by code_simp
  have c2': "applyOperation (?m, []) (Mod retouchLogo) = (?m, [WarnFileNotFound ''logo.png''])"
    using c2 by (simp add: retouchLogo_def)
  show ?thesis
    using h1 c1 h2 c2' h3 h4 h5 h6 c3 c4 e1 e2 e3 d4 d5 by (intro conjI) (simp_all only:)
qed


section \<open>New files\<close>

lemma mimeOfName_cases:
  "(endsWith n ''.js'' \<longrightarrow> mimeOfName n = ''application/javascript'')
   \<and> (endsWith n ''.css'' \<longrightarrow> mimeOfName n = ''text/css'')
   \<and> (endsWith n ''.html'' \<longrightarrow> mimeOfName n = ''text/html'')
   \<and> (\<not> endsWith n ''.js'' \<and> \<not> endsWith n ''.css'' \<and> \<not> endsWith n ''.html''
        \<longrightarrow> mimeOfName n = ''text/plain'')"
proof -
  have 1: "\<not> (suffix ''.js'' n \<and> suffix ''.css'' n)"
  proof
    assume "suffix ''.js'' n \<and> suffix ''.css'' n"
    then have "suffix ''.js'' ''.css'' \<or> suffix ''.css'' ''.js''"
      using suffix_same_cases by blast
    then show False by (simp add: suffix_def Cons_eq_append_conv)
  qed
  have 2: "\<not> (suffix ''.js'' n \<and> suffix ''.html'' n)"
  proof
    assume "suffix ''.js'' n \<and> suffix ''.html'' n"
    then have "suffix ''.js'' ''.html'' \<or> suffix ''.html'' ''.js''"
      using suffix_same_cases by blast
    then show False by (simp add: suffix_def Cons_eq_append_conv)
  qed
  have 3: "\<not> (suffix ''.css'' n \<and> suffix ''.html'' n)"
  proof
    assume "suffix ''.css'' n \<and> suffix ''.html'' n"
    then have "suffix ''.css'' ''.html'' \<or> suffix ''.html'' ''.css''"
      using suffix_same_cases by blast
    then show False by (simp add: suffix_def Cons_eq_append_conv)
  qed
  from 1 2 3 show ?thesis by (auto simp: mimeOfName_def endsWith_def)
qed

lemma applyNewFile_lookup:
  "map_of (fst (applyNewFile (m, console) nf)) (fileName nf)
   = Some \<lparr>content = code nf, type = mimeOfName (fileName nf)\<rparr>"
  by (simp add: applyNewFile_def update_conv')

lemma applyNewFile_other:
  "n \<noteq> fileName nf \<Longrightarrow> map_of (fst (applyNewFile st nf)) n = map_of (fst st) n"
  by (simp add: applyNewFile_def update_conv')

lemma applyNewFiles_other:
  "n \<notin> fileName ` set entries \<Longrightarrow> map_of (fst (foldl applyNewFile st entries)) n = map_of (fst st) n"
  by (induction entries arbitrary: st) (simp_all add: applyNewFile_other)

lemma toFiles_member:
  "map_of m n = Some d \<Longrightarrow> \<lparr>content = content d, type = type d, name = n\<rparr> \<in> set (toFiles m)"
proof -
  assume "map_of m n = Some d"
  then have "(n, d) \<in> set m" by (rule map_of_SomeD)
  then have "(\<lambda>(name', data). \<lparr>content = content data, type = type data, name = name'\<rparr>) (n, d)
      \<in> set (toFiles m)"
    unfolding toFiles_def by (simp only: set_map) (rule imageI)
  then show ?thesis by simp
qed

lemma last_newFile_wins:
  assumes "newFiles plan = Some (es1 @ nf # es2)" and "fileName nf \<notin> fileName ` set es2"
  shows "\<lparr>content = code nf, type = mimeOfName (fileName nf), name = fileName nf\<rparr>
         \<in> set (applyChanges fs plan)"
proof -
  define st0 where "st0 = foldl applyOperation (workingSet fs plan, []) (operations plan)"
  define st1 where "st1 = foldl applyNewFile st0 es1"
  have run: "runPlan fs plan = foldl applyNewFile (applyNewFile st1 nf) es2"
    using assms(1) by (simp add: runPlan_def Let_def st0_def st1_def)
  obtain m1 l1 where s1: "st1 = (m1, l1)" by (cases st1)
  have "map_of (fst (runPlan fs plan)) (fileName nf) = map_of (fst (applyNewFile st1 nf)) (fileName nf)"
    unfolding run using assms(2) by (rule applyNewFiles_other)
  also have "\<dots> = Some \<lparr>content = code nf, type = mimeOfName (fileName nf)\<rparr>"
    unfolding s1 by (rule applyNewFile_lookup)
  finally have "\<lparr>content = content \<lparr>content = code nf, type = mimeOfName (fileName nf)\<rparr>,
        type = type \<lparr>content = code nf, type = mimeOfName (fileName nf)\<rparr>, name = fileName nf\<rparr>
      \<in> set (toFiles (fst (runPlan fs plan)))"
    by (rule toFiles_member)
  then show ?thesis by (simp add: applyChanges_def)
qed

text \<open>
  C6: each entry of \<^verbatim>\<open>newFiles\<close> stores, under its file name, its code and the MIME type
  read off the extension, whatever the working map held before; the type is
  \<^verbatim>\<open>application/javascript\<close> for \<^verbatim>\<open>.js\<close>, \<^verbatim>\<open>text/css\<close> for \<^verbatim>\<open>.css\<close>, \<^verbatim>\<open>text/html\<close> for
  \<^verbatim>\<open>.html\<close> and \<^verbatim>\<open>text/plain\<close> otherwise; the record of the last entry for a name is in the
  files returned; and \<^verbatim>\<open>x.css\<close> with code \<^verbatim>\<open>body{}\<close> on no files yields exactly that one
  stylesheet record.
\<close>

theorem new_files_set_content_and_type:
  "map_of (fst (applyNewFile (m, console) nf)) (fileName nf)
     = Some \<lparr>content = code nf, type = mimeOfName (fileName nf)\<rparr>
   \<and> (endsWith n ''.js'' \<longrightarrow> mimeOfName n = ''application/javascript'')
   \<and> (endsWith n ''.css'' \<longrightarrow> mimeOfName n = ''text/css'')
   \<and> (endsWith n ''.html'' \<longrightarrow> mimeOfName n = ''text/html'')
   \<and> (\<not> endsWith n ''.js'' \<and> \<not> endsWith n ''.css'' \<and> \<not> endsWith n ''.html''
        \<longrightarrow> mimeOfName n = ''text/plain'')
   \<and> (newFiles plan = Some (es1 @ nf # es2) \<and> fileName nf \<notin> fileName ` set es2
        \<longrightarrow> \<lparr>content = code nf, type = mimeOfName (fileName nf), name = fileName nf\<rparr>
            \<in> set (applyChanges fs plan))
   \<and> applyChanges [] (emptyPlan\<lparr>newFiles := Some [\<lparr>fileName = ''x.css'', code = ''body{}''\<rparr>]\<rparr>)
       = [\<lparr>content = ''body{}'', type = ''text/css'', name = ''x.css''\<rparr>]"
proof -
  have ex: "applyChanges [] (emptyPlan\<lparr>newFiles := Some [\<lparr>fileName = ''x.css'', code = ''body{}''\<rparr>]\<rparr>)
       = [\<lparr>content = ''body{}'', type = ''text/css'', name = ''x.css''\<rparr>]"
    by code_simp
  have last: "newFiles plan = Some (es1 @ nf # es2) \<and> fileName nf \<notin> fileName ` set es2
        \<longrightarrow> \<lparr>content = code nf, type = mimeOfName (fileName nf), name = fileName nf\<rparr>
            \<in> set (applyChanges fs plan)"
    using last_newFile_wins [of plan es1 nf es2 fs] by blast
  from applyNewFile_lookup [of m console nf] mimeOfName_cases [of n] last ex
  show ?thesis by blast
qed


theorem new_files_set_content_and_type_witness:
  "endsWith ''a.js'' ''.js'' \<and> mimeOfName ''a.js'' = ''application/javascript''
   \<and> endsWith ''b.css'' ''.css'' \<and> mimeOfName ''b.css'' = ''text/css''
   \<and> endsWith ''c.html'' ''.html'' \<and> mimeOfName ''c.html'' = ''text/html''
   \<and> \<not> endsWith ''README'' ''.js'' \<and> \<not> endsWith ''README'' ''.css'' \<and> \<not> endsWith ''README'' ''.html''
   \<and> mimeOfName ''README'' = ''text/plain''
   \<and> newFiles (emptyPlan\<lparr>newFiles := Some ([\<lparr>fileName = ''a.js'', code = ''1''\<rparr>]
          @ \<lparr>fileName = ''a.js'', code = ''2''\<rparr> # [\<lparr>fileName = ''b.css'', code = ''p{}''\<rparr>])\<rparr>)
       = Some ([\<lparr>fileName = ''a.js'', code = ''1''\<rparr>]
          @ \<lparr>fileName = ''a.js'', code = ''2''\<rparr> # [\<lparr>fileName = ''b.css'', code = ''p{}''\<rparr>])
   \<and> fileName \<lparr>fileName = ''a.js'', code = ''2''\<rparr> \<notin> fileName ` set [\<lparr>fileName = ''b.css'', code = ''p{}''\<rparr>]
   \<and> \<lparr>content = ''2'', type = ''application/javascript'', name = ''a.js''\<rparr>
       \<in> set (applyChanges [appFile]
            (emptyPlan\<lparr>newFiles := Some ([\<lparr>fileName = ''a.js'', code = ''1''\<rparr>]
               @ \<lparr>fileName = ''a.js'', code = ''2''\<rparr> # [\<lparr>fileName = ''b.css'', code = ''p{}''\<rparr>])\<rparr>))"
proof -
  let ?nf = "\<lparr>fileName = ''a.js'', code = ''2''\<rparr>"
  let ?es1 = "[\<lparr>fileName = ''a.js'', code = ''1''\<rparr>]"
  let ?es2 = "[\<lparr>fileName = ''b.css'', code = ''p{}''\<rparr>]"
  let ?plan = "emptyPlan\<lparr>newFiles := Some (?es1 @ ?nf # ?es2)\<rparr>"
  have js: "endsWith ''a.js'' ''.js''" by (simp add: endsWith_def suffix_def)
  have css: "endsWith ''b.css'' ''.css''" by (simp add: endsWith_def suffix_def)
  have html: "endsWith ''c.html'' ''.html''" by (simp add: endsWith_def suffix_def)
  have plain: "\<not> endsWith ''README'' ''.js'' \<and> \<not> endsWith ''README'' ''.css'' \<and> \<not> endsWith ''README'' ''.html''"
    by code_simp
  have h1: "newFiles ?plan = Some (?es1 @ ?nf # ?es2)" by simp
  have h2: "fileName ?nf \<notin> fileName ` set ?es2" by simp
  have c1: "mimeOfName ''a.js'' = ''application/javascript''"
    using new_files_set_content_and_type [of "[]" "[]" ?nf "''a.js''" ?plan ?es1 ?es2 "[appFile]"] js
    by blast
  have c2: "mimeOfName ''b.css'' = ''text/css''"
    using new_files_set_content_and_type [of "[]" "[]" ?nf "''b.css''" ?plan ?es1 ?es2 "[appFile]"] css
    by blast
  have c3: "mimeOfName ''c.html'' = ''text/html''"
    using new_files_set_content_and_type [of "[]" "[]" ?nf "''c.html''" ?plan ?es1 ?es2 "[appFile]"] html
    by blast
  have c4: "mimeOfName ''README'' = ''text/plain''"
    using new_files_set_content_and_type [of "[]" "[]" ?nf "''README''" ?plan ?es1 ?es2 "[appFile]"] plain
    by blast
  have c5: "\<lparr>content = code ?nf, type = mimeOfName (fileName ?nf), name = fileName ?nf\<rparr>
       \<in> set (applyChanges [appFile] ?plan)"
    using new_files_set_content_and_type [of "[]" "[]" ?nf "''a.js''" ?plan ?es1 ?es2 "[appFile]"] h1 h2
    by blast
  have c5': "\<lparr>content = ''2'', type = ''application/javascript'', name = ''a.js''\<rparr>
       \<in> set (applyChanges [appFile] ?plan)"
    using c5 c1 by simp
  show ?thesis
    using js c1 css c2 html c3 plain c4 h1 h2 c5' by blast
qed

lemma applyOperation_keeps_type:
  assumes "map_of m n = Some fileData"
  shows "\<exists>fileData'. map_of (fst (applyOperation (m, console) op)) n = Some fileData'
           \<and> type fileData' = type fileData"
proof (cases "n = op_fileName op")
  case True
  then show ?thesis using assms by (simp add: applyOperation_def update_conv')
next
  case False
  then show ?thesis using assms applyOperation_other [of n op "(m, console)"] by simp
qed

lemma applyNewFile_present:
  assumes "map_of m (fileName nf) = Some old"
  shows "map fst (fst (applyNewFile (m, console) nf)) = map fst m"
    and "snd (applyNewFile (m, console) nf) = console @ [WarnAlreadyExists (fileName nf)]"
proof -
  have "fileName nf \<in> fst ` set m"
    using assms by (metis domI dom_map_of_conv_image_fst)
  then show "map fst (fst (applyNewFile (m, console) nf)) = map fst m"
    by (simp add: applyNewFile_def update_present_keys)
  show "snd (applyNewFile (m, console) nf) = console @ [WarnAlreadyExists (fileName nf)]"
    using assms by (simp add: applyNewFile_def)
qed

text \<open>
  C7, as stated, fails: a \<^verbatim>\<open>newFiles\<close> entry for the existing file \<^verbatim>\<open>app.js\<close>, whose type is
  \<^verbatim>\<open>text/javascript\<close>, leaves the record with the type \<^verbatim>\<open>application/javascript\<close>.
\<close>

theorem overwrite_keeps_type_counterexample:
  "map_of (initialMap [appFile]) ''app.js'' = Some \<lparr>content = content appFile, type = ''text/javascript''\<rparr>
   \<and> applyChanges [appFile] (emptyPlan\<lparr>newFiles := Some [\<lparr>fileName = ''app.js'', code = ''let c = 3;''\<rparr>]\<rparr>)
       = [\<lparr>content = ''let c = 3;'', type = ''application/javascript'', name = ''app.js''\<rparr>]
   \<and> ''application/javascript'' \<noteq> type appFile"
  by code_simp

text \<open>
  C7, amended: a \<^verbatim>\<open>newFiles\<close> entry whose file name is already in the working map keeps
  the place of that record, replaces its content by the code and its MIME type by the
  type read off the extension, and logs the overwrite warning; it is the Deletion and
  Modification operations that never change the MIME type of a record.
\<close>

theorem overwrite_sets_inferred_type:
  "(map_of m (fileName nf) = Some old
      \<longrightarrow> map_of (fst (applyNewFile (m, console) nf)) (fileName nf)
            = Some \<lparr>content = code nf, type = mimeOfName (fileName nf)\<rparr>
          \<and> map fst (fst (applyNewFile (m, console) nf)) = map fst m
          \<and> snd (applyNewFile (m, console) nf) = console @ [WarnAlreadyExists (fileName nf)])
   \<and> (map_of m n = Some fileData
      \<longrightarrow> (\<exists>fileData'. map_of (fst (applyOperation (m, console) op)) n = Some fileData'
             \<and> type fileData' = type fileData))"
  using applyNewFile_lookup [of m console nf] applyNewFile_present [of m nf old console]
    applyOperation_keeps_type [of m n fileData console op]
  by blast

theorem overwrite_sets_inferred_type_witness:
  "map_of (initialMap [appFile]) (fileName \<lparr>fileName = ''app.js'', code = ''let c = 3;''\<rparr>)
     = Some \<lparr>content = content appFile, type = ''text/javascript''\<rparr>
   \<and> map_of (fst (applyNewFile (initialMap [appFile], []) \<lparr>fileName = ''app.js'', code = ''let c = 3;''\<rparr>))
        ''app.js''
     = Some \<lparr>content = ''let c = 3;'', type = ''application/javascript''\<rparr>
   \<and> map fst (fst (applyNewFile (initialMap [appFile], []) \<lparr>fileName = ''app.js'', code = ''let c = 3;''\<rparr>))
     = [''app.js'']
   \<and> snd (applyNewFile (initialMap [appFile], []) \<lparr>fileName = ''app.js'', code = ''let c = 3;''\<rparr>)
     = [WarnAlreadyExists ''app.js'']
   \<and> (\<exists>fileData'. map_of (fst (applyOperation (initialMap [appFile], []) (Mod renameA))) ''app.js''
          = Some fileData' \<and> type fileData' = ''text/javascript'')"
proof -
  let ?m = "initialMap [appFile]"
  let ?nf = "\<lparr>fileName = ''app.js'', code = ''let c = 3;''\<rparr>"
  let ?old = "\<lparr>content = content appFile, type = ''text/javascript''\<rparr>"
  have h1: "map_of ?m (fileName ?nf) = Some ?old" by code_simp
  have h2: "map_of ?m ''app.js'' = Some ?old" by code_simp
  note inst = overwrite_sets_inferred_type [of ?m ?nf ?old "[]" "''app.js''" ?old "Mod renameA"]
  have c1: "map_of (fst (applyNewFile (?m, []) ?nf)) (fileName ?nf)
            = Some \<lparr>content = code ?nf, type = mimeOfName (fileName ?nf)\<rparr>
          \<and> map fst (fst (applyNewFile (?m, []) ?nf)) = map fst ?m
          \<and> snd (applyNewFile (?m, []) ?nf) = [] @ [WarnAlreadyExists (fileName ?nf)]"
    using inst h1 by blast
  have c2: "\<exists>fileData'. map_of (fst (applyOperation (?m, []) (Mod renameA))) ''app.js'' = Some fileData'
             \<and> type fileData' = type ?old"
    using inst h2 by blast
  have e1: "mimeOfName ''app.js'' = ''application/javascript''" by code_simp
  have e2: "map fst ?m = [''app.js'']" by code_simp
  show ?thesis
    using h1 c1 c2 e1 e2 by simp
qed


section \<open>Records the plan does not mention\<close>

lemma filter_update_target:
  "k \<in> T \<Longrightarrow> filter (\<lambda>e. fst e \<notin> T) (AList.update k v m) = filter (\<lambda>e. fst e \<notin> T) m"
  by (induction m) auto

lemma filter_deleteAll_target:
  "set names \<subseteq> T \<Longrightarrow> filter (\<lambda>e. fst e \<notin> T) (deleteAll names m) = filter (\<lambda>e. fst e \<notin> T) m"
  by (auto simp: deleteAll_filter intro: filter_cong)

lemma filter_applyOperation_target:
  "op_fileName op \<in> T \<Longrightarrow>
   filter (\<lambda>e. fst e \<notin> T) (fst (applyOperation st op)) = filter (\<lambda>e. fst e \<notin> T) (fst st)"
  by (cases "map_of (fst st) (op_fileName op)") (simp_all add: applyOperation_def filter_update_target)

lemma filter_applyOperations_target:
  "op_fileName ` set ops \<subseteq> T \<Longrightarrow>
   filter (\<lambda>e. fst e \<notin> T) (fst (foldl applyOperation st ops)) = filter (\<lambda>e. fst e \<notin> T) (fst st)"
  by (induction ops arbitrary: st) (simp_all add: filter_applyOperation_target)

lemma filter_applyNewFile_target:
  "fileName nf \<in> T \<Longrightarrow>
   filter (\<lambda>e. fst e \<notin> T) (fst (applyNewFile st nf)) = filter (\<lambda>e. fst e \<notin> T) (fst st)"
  by (simp add: applyNewFile_def filter_update_target)

lemma filter_applyNewFiles_target:
  "fileName ` set entries \<subseteq> T \<Longrightarrow>
   filter (\<lambda>e. fst e \<notin> T) (fst (foldl applyNewFile st entries)) = filter (\<lambda>e. fst e \<notin> T) (fst st)"
  by (induction entries arbitrary: st) (simp_all add: filter_applyNewFile_target)

lemma runPlan_untouched:
  "filter (\<lambda>e. fst e \<notin> targets plan) (fst (runPlan fs plan))
   = filter (\<lambda>e. fst e \<notin> targets plan) (initialMap fs)"
proof -
  have 1: "filter (\<lambda>e. fst e \<notin> targets plan) (workingSet fs plan)
      = filter (\<lambda>e. fst e \<notin> targets plan) (initialMap fs)"
  proof (cases "deleteFiles plan")
    case None
    then show ?thesis by (simp add: workingSet_def)
  next
    case (Some names)
    then have "set names \<subseteq> targets plan" by (auto simp: targets_def)
    then show ?thesis using Some by (simp add: workingSet_def filter_deleteAll_target)
  qed
  have 2: "filter (\<lambda>e. fst e \<notin> targets plan)
        (fst (foldl applyOperation (workingSet fs plan, []) (operations plan)))
      = filter (\<lambda>e. fst e \<notin> targets plan) (workingSet fs plan)"
  proof -
    have "op_fileName ` set (operations plan) \<subseteq> targets plan" by (auto simp: targets_def)
    then show ?thesis
      using filter_applyOperations_target [of "operations plan" "targets plan" "(workingSet fs plan, [])"]
      by simp
  qed
  have 3: "filter (\<lambda>e. fst e \<notin> targets plan) (fst (runPlan fs plan))
      = filter (\<lambda>e. fst e \<notin> targets plan)
          (fst (foldl applyOperation (workingSet fs plan, []) (operations plan)))"
  proof (cases "newFiles plan")
    case None
    then show ?thesis by (simp add: runPlan_def)
  next
    case (Some entries)
    then have "fileName ` set entries \<subseteq> targets plan" by (auto simp: targets_def)
    then show ?thesis using Some by (simp add: runPlan_def filter_applyNewFiles_target)
  qed
  show ?thesis by (simp only: 1 2 3)
qed

lemma filter_toFiles:
  "filter (\<lambda>f. name f \<notin> T) (toFiles m) = toFiles (filter (\<lambda>e. fst e \<notin> T) m)"
  by (induction m) (auto simp: toFiles_def)

lemma filter_entries:
  "filter (\<lambda>e. fst e \<notin> T) (map entryOf fs) = map entryOf (filter (\<lambda>f. name f \<notin> T) fs)"
  by (induction fs) (auto simp: entryOf_def)

lemma applyChanges_untouched:
  assumes "distinct (map name fs)"
  shows "filter (\<lambda>f. name f \<notin> targets plan) (applyChanges fs plan)
         = filter (\<lambda>f. name f \<notin> targets plan) fs"
proof -
  have "filter (\<lambda>f. name f \<notin> targets plan) (applyChanges fs plan)
      = toFiles (filter (\<lambda>e. fst e \<notin> targets plan) (fst (runPlan fs plan)))"
    by (simp add: applyChanges_def filter_toFiles)
  also have "\<dots> = toFiles (filter (\<lambda>e. fst e \<notin> targets plan) (map entryOf fs))"
    using assms by (simp add: runPlan_untouched initialMap_of_distinct)
  also have "\<dots> = filter (\<lambda>f. name f \<notin> targets plan) fs"
    by (simp add: filter_entries toFiles_entries)
  finally show ?thesis .
qed

lemma applyChanges_names:
  "set (map name (applyChanges fs plan))
   = (name ` set fs - set (case deleteFiles plan of None \<Rightarrow> [] | Some names \<Rightarrow> names))
     \<union> fileName ` set (case newFiles plan of None \<Rightarrow> [] | Some entries \<Rightarrow> entries)"
proof -
  have "set (map fst (fst (foldl applyOperation (workingSet fs plan, []) (operations plan))))
      = fst ` set (workingSet fs plan)"
    by (simp add: applyOperations_keys)
  then have "fst ` set (fst (runPlan fs plan))
      = fst ` set (workingSet fs plan)
        \<union> fileName ` set (case newFiles plan of None \<Rightarrow> [] | Some entries \<Rightarrow> entries)"
    by (cases "newFiles plan") (simp_all add: runPlan_def applyNewFiles_keys)
  then show ?thesis
    by (simp add: applyChanges_def names_toFiles workingSet_keys)
qed

lemma applyChanges_distinct: "distinct (map name (applyChanges fs plan))"
  by (simp add: applyChanges_def names_toFiles runPlan_distinct)

text \<open>
  C5: the names of the files returned are pairwise different; they are the names of the
  input that \<^verbatim>\<open>deleteFiles\<close> does not list, together with the names of the new files; and
  when the names of the input are pairwise different, the records whose name the plan
  does not mention are, in the output, exactly those of the input, unchanged and in the
  same order, so that each of them is in the output. The model is a function of its
  arguments: the input list is a value and cannot change.
\<close>

theorem untouched_records_preserved:
  "distinct (map name (applyChanges fs plan))
   \<and> set (map name (applyChanges fs plan))
       = (name ` set fs - set (case deleteFiles plan of None \<Rightarrow> [] | Some names \<Rightarrow> names))
         \<union> fileName ` set (case newFiles plan of None \<Rightarrow> [] | Some entries \<Rightarrow> entries)
   \<and> (distinct (map name fs)
        \<longrightarrow> filter (\<lambda>f. name f \<notin> targets plan) (applyChanges fs plan)
            = filter (\<lambda>f. name f \<notin> targets plan) fs)
   \<and> (distinct (map name fs) \<and> f \<in> set fs \<and> name f \<notin> targets plan
        \<longrightarrow> f \<in> set (applyChanges fs plan))
   \<and> (distinct (map name fs) \<longrightarrow> applyChanges fs emptyPlan = fs)"
proof -
  have mem: "f \<in> set (applyChanges fs plan)"
    if "distinct (map name fs)" "f \<in> set fs" "name f \<notin> targets plan"
  proof -
    have "f \<in> set (filter (\<lambda>f. name f \<notin> targets plan) fs)" using that by simp
    then have "f \<in> set (filter (\<lambda>f. name f \<notin> targets plan) (applyChanges fs plan))"
      using that(1) by (simp only: applyChanges_untouched)
    then show ?thesis by simp
  qed
  have emp: "applyChanges fs emptyPlan = fs" if "distinct (map name fs)"
    using that by (simp add: applyChanges_emptyPlan toFiles_initialMap)
  from applyChanges_distinct [of fs plan] applyChanges_names [of fs plan]
    applyChanges_untouched [of fs plan] mem emp
  show ?thesis by blast
qed

theorem untouched_records_preserved_witness:
  "distinct (map name [logoFile, appFile])
   \<and> logoFile \<in> set [logoFile, appFile]
   \<and> name logoFile \<notin> targets (emptyPlan\<lparr>modify := Some [renameA]\<rparr>)
   \<and> filter (\<lambda>f. name f \<notin> targets (emptyPlan\<lparr>modify := Some [renameA]\<rparr>))
        (applyChanges [logoFile, appFile] (emptyPlan\<lparr>modify := Some [renameA]\<rparr>))
       = [logoFile]
   \<and> logoFile \<in> set (applyChanges [logoFile, appFile] (emptyPlan\<lparr>modify := Some [renameA]\<rparr>))
   \<and> applyChanges [logoFile, appFile] emptyPlan = [logoFile, appFile]
   \<and> applyChanges [logoFile, appFile] (emptyPlan\<lparr>modify := Some [renameA]\<rparr>)
       = [logoFile, \<lparr>content = ''let total = 1; let b = 2;'', type = ''text/javascript'', name = ''app.js''\<rparr>]"
proof -
  let ?fs = "[logoFile, appFile]"
  let ?plan = "emptyPlan\<lparr>modify := Some [renameA]\<rparr>"
  have h1: "distinct (map name ?fs)" by (simp add: logoFile_def appFile_def)
  have h2: "logoFile \<in> set ?fs" by simp
  have t: "targets ?plan = {''app.js''}"
    by (simp add: targets_def operations_def emptyPlan_def renameA_def)
  have h3: "name logoFile \<notin> targets ?plan" by (simp add: t logoFile_def)
  note inst = untouched_records_preserved [of ?fs ?plan logoFile]
  have c1: "filter (\<lambda>f. name f \<notin> targets ?plan) (applyChanges ?fs ?plan)
            = filter (\<lambda>f. name f \<notin> targets ?plan) ?fs"
    using inst h1 by blast
  have c2: "logoFile \<in> set (applyChanges ?fs ?plan)"
    using inst h1 h2 h3 by blast
  have c3: "applyChanges ?fs emptyPlan = ?fs"
    using inst h1 by blast
  have e1: "filter (\<lambda>f. name f \<notin> targets ?plan) ?fs = [logoFile]"
    by (simp add: t logoFile_def appFile_def)
  have e2: "applyChanges ?fs ?plan
       = [logoFile, \<lparr>content = ''let total = 1; let b = 2;'', type = ''text/javascript'', name = ''app.js''\<rparr>]"
    by code_simp
  have c1': "filter (\<lambda>f. name f \<notin> targets ?plan) (applyChanges ?fs ?plan) = [logoFile]"
    using c1 e1 by (rule trans)
  from h1 h2 h3 c1' c2 c3 e2 show ?thesis by blast
qed


section \<open>Operations that cannot be resolved\<close>

lemma disjoint_occurrences_iff:
  "(\<exists>i j. occursAt p s i \<and> occursAt p s j \<and> i + length p \<le> j)
   \<longleftrightarrow> (\<exists>a b c. s = a @ p @ b @ p @ c)"
proof
  assume "\<exists>i j. occursAt p s i \<and> occursAt p s j \<and> i + length p \<le> j"
  then obtain i j where i: "occursAt p s i" and j: "occursAt p s j" and d: "i + length p \<le> j"
    by blast
  from i obtain r where r: "drop i s = p @ r" by (auto simp: occursAt_def prefix_def)
  from j obtain c where c: "drop j s = p @ c" by (auto simp: occursAt_def prefix_def)
  have s: "s = take i s @ p @ r" using r by (metis append_take_drop_id)
  have "drop j s = drop (j - i) (drop i s)" using d by simp
  also have "\<dots> = drop (j - i - length p) r" using d by (simp add: r)
  finally have "drop (j - i - length p) r = p @ c" using c by simp
  then have "r = take (j - i - length p) r @ p @ c" by (metis append_take_drop_id)
  then have "s = take i s @ p @ take (j - i - length p) r @ p @ c" using s by simp
  then show "\<exists>a b c. s = a @ p @ b @ p @ c" by blast
next
  assume "\<exists>a b c. s = a @ p @ b @ p @ c"
  then obtain a b c where s: "s = a @ p @ b @ p @ c" by blast
  have "occursAt p s (length a)"
    using s occursAt_append [of p a "b @ p @ c"] by simp
  moreover have "occursAt p s (length (a @ p @ b))"
    using s occursAt_append [of p "a @ p @ b" c] by simp
  moreover have "length a + length p \<le> length (a @ p @ b)" by simp
  ultimately show "\<exists>i j. occursAt p s i \<and> occursAt p s j \<and> i + length p \<le> j" by blast
qed

lemma console_grows_operation: "\<exists>l. snd (applyOperation st op) = snd st @ l"
  by (cases "map_of (fst st) (op_fileName op)") (simp_all add: applyOperation_def)

lemma console_grows_operations: "\<exists>l. snd (foldl applyOperation st ops) = snd st @ l"
proof (induction ops arbitrary: st)
  case Nil
  show ?case by simp
next
  case (Cons op ops)
  obtain l1 where 1: "snd (applyOperation st op) = snd st @ l1"
    using console_grows_operation by blast
  obtain l2 where "snd (foldl applyOperation (applyOperation st op) ops) = snd (applyOperation st op) @ l2"
    using Cons.IH by blast
  then show ?case using 1 by simp
qed

lemma console_grows_newFile: "\<exists>l. snd (applyNewFile st nf) = snd st @ l"
  by (simp add: applyNewFile_def)

lemma console_grows_newFiles: "\<exists>l. snd (foldl applyNewFile st entries) = snd st @ l"
proof (induction entries arbitrary: st)
  case Nil
  show ?case by simp
next
  case (Cons nf entries)
  obtain l1 where 1: "snd (applyNewFile st nf) = snd st @ l1"
    using console_grows_newFile by blast
  obtain l2 where "snd (foldl applyNewFile (applyNewFile st nf) entries) = snd (applyNewFile st nf) @ l2"
    using Cons.IH by blast
  then show ?case using 1 by simp
qed

lemma console_of_operation:
  assumes "operations plan = ops1 @ op # ops2"
    and "d \<in> set (snd (applyOperation (foldl applyOperation (workingSet fs plan, []) ops1) op))"
  shows "d \<in> set (consoleOf fs plan)"
proof -
  define st1 where "st1 = applyOperation (foldl applyOperation (workingSet fs plan, []) ops1) op"
  define st2 where "st2 = foldl applyOperation st1 ops2"
  have ops: "foldl applyOperation (workingSet fs plan, []) (operations plan) = st2"
    by (simp add: assms(1) st2_def st1_def)
  obtain l2 where l2: "snd st2 = snd st1 @ l2"
    unfolding st2_def using console_grows_operations by blast
  have "\<exists>l. snd (runPlan fs plan) = snd st2 @ l"
  proof (cases "newFiles plan")
    case None
    then show ?thesis by (simp add: runPlan_def ops)
  next
    case (Some entries)
    then show ?thesis using console_grows_newFiles [of st2 entries] by (simp add: runPlan_def ops)
  qed
  then obtain l3 where "snd (runPlan fs plan) = snd st1 @ l2 @ l3" using l2 by auto
  then show ?thesis using assms(2) by (simp add: consoleOf_def st1_def)
qed

lemma unresolvable_step:
  assumes "\<not> startsWith (type fileData) ''image/''"
    and "occurrenceCount (fullContextString op) (content fileData) = 0"
    and "op_codeToDelete op = [] \<or> occurrenceCount (op_codeToDelete op) (content fileData) = 0
         \<or> (\<exists>i j. occursAt (op_codeToDelete op) (content fileData) i
                 \<and> occursAt (op_codeToDelete op) (content fileData) j
                 \<and> i + length (op_codeToDelete op) \<le> j)"
    and "map_of m (op_fileName op) = Some fileData"
  shows "applyOperation (m, console) op =
    (m, console @ [ErrorCouldNotApply (op_fileName op) (occurrences (content fileData) op),
                   ErrorFailedOperation op])"
proof -
  have "editContent fileData op =
    (content fileData,
     [ErrorCouldNotApply (op_fileName op) (occurrences (content fileData) op),
      ErrorFailedOperation op])"
  proof (rule editContent_unresolvable)
    show "\<not> startsWith (type fileData) ''image/''" by (rule assms(1))
    show "\<not> sublist (fullContextString op) (content fileData)"
      using assms(2) by (simp add: occurrenceCount_zero)
    show "op_codeToDelete op = [] \<or> \<not> sublist (op_codeToDelete op) (content fileData)
         \<or> (\<exists>a b c. content fileData = a @ op_codeToDelete op @ b @ op_codeToDelete op @ c)"
      using assms(3)
        disjoint_occurrences_iff [of "op_codeToDelete op" "content fileData"]
        occurrenceCount_zero [of "op_codeToDelete op" "content fileData"]
      by blast
  qed
  with assms(4) show ?thesis by (rule applyOperation_unchanged)
qed

text \<open>
  C3 at occurrences of \<^verbatim>\<open>codeToDelete\<close> that overlap: \<^verbatim>\<open>aba\<close> occurs in \<^verbatim>\<open>ababa\<close> at the
  indices 0 and 2 and the anchored target \<^verbatim>\<open>xabax\<close> does not occur, so the claim expects the
  file unchanged and an error logged. The global match counts matches that do not
  overlap, finds one, and the Deletion is applied to the occurrence at index 0 with the
  warning of an unambiguous fall-back.
\<close>

theorem overlapping_occurrences_replaced:
  "occurrenceCount ''aba'' ''ababa'' = 2
   \<and> occursAt ''aba'' ''ababa'' 0 \<and> occursAt ''aba'' ''ababa'' 2
   \<and> occurrenceCount ''xabax'' ''ababa'' = 0
   \<and> applyChanges [\<lparr>content = ''ababa'', type = ''text/plain'', name = ''a.txt''\<rparr>]
        (emptyPlan\<lparr>delete := Some [\<lparr>fileName = ''a.txt'', before = ''x'', codeToDelete = ''aba'', after = ''x''\<rparr>]\<rparr>)
      = [\<lparr>content = ''ba'', type = ''text/plain'', name = ''a.txt''\<rparr>]
   \<and> consoleOf [\<lparr>content = ''ababa'', type = ''text/plain'', name = ''a.txt''\<rparr>]
        (emptyPlan\<lparr>delete := Some [\<lparr>fileName = ''a.txt'', before = ''x'', codeToDelete = ''aba'', after = ''x''\<rparr>]\<rparr>)
      = [WarnContextMismatch ''a.txt'']
   \<and> occurrences ''ababa''
        (Del \<lparr>fileName = ''a.txt'', before = ''x'', codeToDelete = ''aba'', after = ''x''\<rparr>) = 1
   \<and> applyChanges [\<lparr>content = ''ababa'', type = ''text/plain'', name = ''a.txt''\<rparr>]
        (emptyPlan\<lparr>delete := Some [\<lparr>fileName = ''a.txt'', before = ''x'', codeToDelete = ''aba'', after = ''x''\<rparr>]\<rparr>)
      \<noteq> [\<lparr>content = ''ababa'', type = ''text/plain'', name = ''a.txt''\<rparr>]"
  by code_simp

text \<open>
  Away from overlapping occurrences the operation is skipped: on a text file in which
  the anchored target does not occur, an operation whose \<^verbatim>\<open>codeToDelete\<close> is empty, occurs
  nowhere, or has two occurrences that do not overlap leaves the whole working map as it
  was and logs the two error messages; the call then returns what it returns for the
  plan without this operation, so every other operation is applied, and the error is in
  the console output of the call.
\<close>

lemma unresolvable_operation_skipped:
  "\<not> startsWith (type fileData) ''image/''
   \<and> occurrenceCount (fullContextString op) (content fileData) = 0
   \<and> (op_codeToDelete op = [] \<or> occurrenceCount (op_codeToDelete op) (content fileData) = 0
       \<or> (\<exists>i j. occursAt (op_codeToDelete op) (content fileData) i
               \<and> occursAt (op_codeToDelete op) (content fileData) j
               \<and> i + length (op_codeToDelete op) \<le> j))
   \<longrightarrow>
     (map_of m (op_fileName op) = Some fileData
        \<longrightarrow> applyOperation (m, console) op =
            (m, console @ [ErrorCouldNotApply (op_fileName op) (occurrences (content fileData) op),
                           ErrorFailedOperation op]))
     \<and> (operations plan = ops1 @ op # ops2
         \<and> map_of (fst (foldl applyOperation (workingSet fs plan, []) ops1)) (op_fileName op)
             = Some fileData
         \<and> operations plan' = ops1 @ ops2
         \<and> deleteFiles plan' = deleteFiles plan \<and> newFiles plan' = newFiles plan
        \<longrightarrow> applyChanges fs plan = applyChanges fs plan'
            \<and> ErrorFailedOperation op \<in> set (consoleOf fs plan))"
proof (intro impI conjI; (elim conjE)?)
  assume h: "\<not> startsWith (type fileData) ''image/''"
    "occurrenceCount (fullContextString op) (content fileData) = 0"
    "op_codeToDelete op = [] \<or> occurrenceCount (op_codeToDelete op) (content fileData) = 0
       \<or> (\<exists>i j. occursAt (op_codeToDelete op) (content fileData) i
               \<and> occursAt (op_codeToDelete op) (content fileData) j
               \<and> i + length (op_codeToDelete op) \<le> j)"
  {
    assume "map_of m (op_fileName op) = Some fileData"
    with h show "applyOperation (m, console) op =
            (m, console @ [ErrorCouldNotApply (op_fileName op) (occurrences (content fileData) op),
                           ErrorFailedOperation op])"
      by (rule unresolvable_step)
  }
  assume p: "operations plan = ops1 @ op # ops2"
    "map_of (fst (foldl applyOperation (workingSet fs plan, []) ops1)) (op_fileName op) = Some fileData"
    "operations plan' = ops1 @ ops2" "deleteFiles plan' = deleteFiles plan" "newFiles plan' = newFiles plan"
  obtain m1 l1 where st: "foldl applyOperation (workingSet fs plan, []) ops1 = (m1, l1)"
    by (cases "foldl applyOperation (workingSet fs plan, []) ops1")
  have step: "applyOperation (m1, l1) op =
      (m1, l1 @ [ErrorCouldNotApply (op_fileName op) (occurrences (content fileData) op),
                 ErrorFailedOperation op])"
    using h p(2) st by (intro unresolvable_step) simp_all
  show "applyChanges fs plan = applyChanges fs plan'"
    using p(1,3,4,5) by (rule skip_operation) (simp add: st step)
  show "ErrorFailedOperation op \<in> set (consoleOf fs plan)"
    using p(1) by (rule console_of_operation) (simp add: st step)
qed

lemma unresolvable_operation_skipped_example:
  "\<not> startsWith (type (snd (entryOf appFile))) ''image/''
   \<and> occurrenceCount (fullContextString (Del dropLet)) (content (snd (entryOf appFile))) = 0
   \<and> occursAt (op_codeToDelete (Del dropLet)) (content (snd (entryOf appFile))) 0
   \<and> occursAt (op_codeToDelete (Del dropLet)) (content (snd (entryOf appFile))) 11
   \<and> 0 + length (op_codeToDelete (Del dropLet)) \<le> 11
   \<and> map_of (initialMap [appFile]) (op_fileName (Del dropLet)) = Some (snd (entryOf appFile))
   \<and> applyOperation (initialMap [appFile], []) (Del dropLet)
       = (initialMap [appFile], [ErrorCouldNotApply ''app.js'' 2, ErrorFailedOperation (Del dropLet)])
   \<and> operations (emptyPlan\<lparr>delete := Some [dropLet], modify := Some [renameA]\<rparr>)
       = [] @ Del dropLet # [Mod renameA]
   \<and> operations (emptyPlan\<lparr>modify := Some [renameA]\<rparr>) = [] @ [Mod renameA]
   \<and> applyChanges [appFile] (emptyPlan\<lparr>delete := Some [dropLet], modify := Some [renameA]\<rparr>)
       = applyChanges [appFile] (emptyPlan\<lparr>modify := Some [renameA]\<rparr>)
   \<and> applyChanges [appFile] (emptyPlan\<lparr>delete := Some [dropLet], modify := Some [renameA]\<rparr>)
       = [\<lparr>content = ''let total = 1; let b = 2;'', type = ''text/javascript'', name = ''app.js''\<rparr>]
   \<and> ErrorFailedOperation (Del dropLet)
       \<in> set (consoleOf [appFile] (emptyPlan\<lparr>delete := Some [dropLet], modify := Some [renameA]\<rparr>))"
proof -
  let ?fd = "snd (entryOf appFile)"
  let ?op = "Del dropLet"
  let ?m = "initialMap [appFile]"
  let ?plan = "emptyPlan\<lparr>delete := Some [dropLet], modify := Some [renameA]\<rparr>"
  let ?plan' = "emptyPlan\<lparr>modify := Some [renameA]\<rparr>"
  have h1: "\<not> startsWith (type ?fd) ''image/''" by code_simp
  have h2: "occurrenceCount (fullContextString ?op) (content ?fd) = 0" by code_simp
  have h3: "occursAt (op_codeToDelete ?op) (content ?fd) 0" by code_simp
  have h4: "occursAt (op_codeToDelete ?op) (content ?fd) 11" by code_simp
  have h5: "0 + length (op_codeToDelete ?op) \<le> 11" by (simp add: dropLet_def)
  have h345: "op_codeToDelete ?op = [] \<or> occurrenceCount (op_codeToDelete ?op) (content ?fd) = 0
       \<or> (\<exists>i j. occursAt (op_codeToDelete ?op) (content ?fd) i
               \<and> occursAt (op_codeToDelete ?op) (content ?fd) j
               \<and> i + length (op_codeToDelete ?op) \<le> j)"
    using h3 h4 h5 by blast
  have h6: "map_of ?m (op_fileName ?op) = Some ?fd" by code_simp
  have h7: "operations ?plan = [] @ ?op # [Mod renameA]"
    by (simp add: operations_def emptyPlan_def)
  have h8: "operations ?plan' = [] @ [Mod renameA]"
    by (simp add: operations_def emptyPlan_def)
  have h9: "map_of (fst (foldl applyOperation (workingSet [appFile] ?plan, []) [])) (op_fileName ?op)
      = Some ?fd"
    by code_simp
  have h10: "deleteFiles ?plan' = deleteFiles ?plan" "newFiles ?plan' = newFiles ?plan"
    by simp_all
  note inst = unresolvable_operation_skipped
    [of ?fd ?op ?m "[]" ?plan "[]" "[Mod renameA]" "[appFile]" ?plan']
  have c1: "applyOperation (?m, []) ?op =
      (?m, [] @ [ErrorCouldNotApply (op_fileName ?op) (occurrences (content ?fd) ?op),
                 ErrorFailedOperation ?op])"
    using inst h1 h2 h345 h6 by blast
  have c2: "applyChanges [appFile] ?plan = applyChanges [appFile] ?plan'
      \<and> ErrorFailedOperation ?op \<in> set (consoleOf [appFile] ?plan)"
    using inst h1 h2 h345 h7 h8 h9 h10 by blast
  have e1: "op_fileName ?op = ''app.js''" by (simp add: dropLet_def)
  have e2: "occurrences (content ?fd) ?op = 2" by code_simp
  have e3: "applyChanges [appFile] ?plan'
       = [\<lparr>content = ''let total = 1; let b = 2;'', type = ''text/javascript'', name = ''app.js''\<rparr>]"
    by code_simp
  have c1': "applyOperation (?m, []) ?op
       = (?m, [ErrorCouldNotApply ''app.js'' 2, ErrorFailedOperation ?op])"
    using c1 by (simp only: e1 e2 append_Nil)
  have c3: "applyChanges [appFile] ?plan
       = [\<lparr>content = ''let total = 1; let b = 2;'', type = ''text/javascript'', name = ''app.js''\<rparr>]"
    using c2 e3 by simp
  from h1 h2 h3 h4 h5 h6 c1' h7 h8 c2 c3 show ?thesis by blast
qed


section \<open>Anchored and fall-back replacement\<close>

lemma first_occurrence:
  assumes "occursAt p s k"
  obtains i where "indexOf s p = Some i" "occursAt p s i" "\<forall>j<i. \<not> occursAt p s j"
proof -
  obtain i where i: "indexOf s p = Some i"
    using assms indexOf_None [of s p k] by (cases "indexOf s p") auto
  from indexOf_Some [OF i] that i show ?thesis by blast
qed

lemma applyOperation_present:
  "map_of m (op_fileName op) = Some fileData \<Longrightarrow>
   applyOperation (m, console) op =
     (AList.update (op_fileName op) (fileData\<lparr>content := fst (editContent fileData op)\<rparr>) m,
      console @ snd (editContent fileData op))"
  by (simp add: applyOperation_def)

text \<open>
  What C1 states holds whenever the anchored replacement contains none of the four
  dollar forms: the occurrence of the anchored target at the least index is replaced by
  the anchored replacement, the text before and after it is kept, and nothing is logged.
\<close>

lemma anchored_replacement_without_dollar:
  assumes "map_of m (op_fileName op) = Some fileData"
    and "\<not> startsWith (type fileData) ''image/''"
    and "occursAt (fullContextString op) (content fileData) k"
    and "\<not> dollarPattern (replacementString op)"
  shows "\<exists>i. occursAt (fullContextString op) (content fileData) i
           \<and> (\<forall>j<i. \<not> occursAt (fullContextString op) (content fileData) j)
           \<and> applyOperation (m, console) op =
               (AList.update (op_fileName op)
                  (fileData\<lparr>content := take i (content fileData) @ replacementString op
                       @ drop (i + length (fullContextString op)) (content fileData)\<rparr>) m,
                console)"
proof -
  obtain i where i: "indexOf (content fileData) (fullContextString op) = Some i"
    "occursAt (fullContextString op) (content fileData) i"
    "\<forall>j<i. \<not> occursAt (fullContextString op) (content fileData) j"
    using assms(3) by (rule first_occurrence)
  have "sublist (fullContextString op) (content fileData)"
    using assms(3) occursAt_sublist by blast
  then have "editContent fileData op =
      (replace (content fileData) (fullContextString op) (replacementString op), [])"
    using assms(2) by (simp add: editContent_anchored)
  also have "replace (content fileData) (fullContextString op) (replacementString op)
      = take i (content fileData) @ replacementString op
          @ drop (i + length (fullContextString op)) (content fileData)"
    using assms(4) i(1) by (simp add: replace_plain replaceFirstLiterally_def)
  finally have "applyOperation (m, console) op =
               (AList.update (op_fileName op)
                  (fileData\<lparr>content := take i (content fileData) @ replacementString op
                       @ drop (i + length (fullContextString op)) (content fileData)\<rparr>) m,
                console)"
    using assms(1) by (simp add: applyOperation_present)
  with i(2,3) show ?thesis by blast
qed

text \<open>
  C1 at a replacement that contains a dollar form: the Modification is anchored on the
  whole of \<^verbatim>\<open>let price = 0;\<close> and its new code is \<^verbatim>\<open>amount + '$'\<close>. The anchored
  replacement is \<^verbatim>\<open>let price = amount + '$';\<close>, which the claim expects as the new
  content; \<^verbatim>\<open>replace\<close> expands the dollar-apostrophe form to the (empty) text after the
  match, and the new content is \<^verbatim>\<open>let price = amount + ';\<close>.
\<close>

theorem anchored_replacement_expands_dollar:
  "occursAt (fullContextString (Mod setPrice)) (content priceFile) 0
   \<and> replacementString (Mod setPrice) = ''let price = amount + '' @ [CHR 0x27, CHR ''$'', CHR 0x27] @ '';''
   \<and> replaceFirstLiterally (content priceFile) (fullContextString (Mod setPrice))
        (replacementString (Mod setPrice))
       = ''let price = amount + '' @ [CHR 0x27, CHR ''$'', CHR 0x27] @ '';''
   \<and> applyChanges [priceFile] (emptyPlan\<lparr>modify := Some [setPrice]\<rparr>)
       = [\<lparr>content = ''let price = amount + '' @ [CHR 0x27] @ '';'', type = ''text/javascript'',
           name = ''price.js''\<rparr>]
   \<and> consoleOf [priceFile] (emptyPlan\<lparr>modify := Some [setPrice]\<rparr>) = []
   \<and> map content (applyChanges [priceFile] (emptyPlan\<lparr>modify := Some [setPrice]\<rparr>))
       \<noteq> [replaceFirstLiterally (content priceFile) (fullContextString (Mod setPrice))
            (replacementString (Mod setPrice))]"
  by code_simp

text \<open>
  What C2 states holds whenever the new code contains none of the four dollar forms, and
  for every Deletion: the single occurrence of \<^verbatim>\<open>codeToDelete\<close> is replaced by the new
  code (by nothing, for a Deletion), and the fall-back warning is logged.
\<close>

lemma fallback_without_dollar:
  assumes "map_of m (op_fileName op) = Some fileData"
    and "\<not> startsWith (type fileData) ''image/''"
    and "occurrenceCount (fullContextString op) (content fileData) = 0"
    and "op_codeToDelete op \<noteq> []"
    and "occurrenceCount (op_codeToDelete op) (content fileData) = 1"
    and "\<not> dollarPattern (directReplacement op)"
  shows "\<exists>i. occursAt (op_codeToDelete op) (content fileData) i
           \<and> (\<forall>j. occursAt (op_codeToDelete op) (content fileData) j \<longrightarrow> j = i)
           \<and> applyOperation (m, console) op =
               (AList.update (op_fileName op)
                  (fileData\<lparr>content := take i (content fileData) @ directReplacement op
                       @ drop (i + length (op_codeToDelete op)) (content fileData)\<rparr>) m,
                console @ [WarnContextMismatch (op_fileName op)])"
proof -
  have "card {i. occursAt (op_codeToDelete op) (content fileData) i} = 1"
    using assms(5) by (simp add: occurrenceCount_card)
  then obtain k where k: "{i. occursAt (op_codeToDelete op) (content fileData) i} = {k}"
    by (auto simp: card_1_singleton_iff)
  have eqk: "occursAt (op_codeToDelete op) (content fileData) j \<longleftrightarrow> j = k" for j
  proof -
    have "j \<in> {i. occursAt (op_codeToDelete op) (content fileData) i} \<longleftrightarrow> j \<in> {k}"
      by (simp only: k)
    then show ?thesis by simp
  qed
  then have ok: "occursAt (op_codeToDelete op) (content fileData) k" by simp
  obtain i where i: "indexOf (content fileData) (op_codeToDelete op) = Some i"
    "occursAt (op_codeToDelete op) (content fileData) i"
    using ok by (rule first_occurrence)
  have only: "\<forall>j. occursAt (op_codeToDelete op) (content fileData) j \<longrightarrow> j = i"
    using eqk i(2) by simp
  have "\<not> sublist (fullContextString op) (content fileData)"
    using assms(3) by (simp add: occurrenceCount_zero)
  then have "editContent fileData op =
      (replace (content fileData) (op_codeToDelete op) (directReplacement op),
       [WarnContextMismatch (op_fileName op)])"
    using assms(2,4,5) by (simp add: editContent_fallback)
  also have "replace (content fileData) (op_codeToDelete op) (directReplacement op)
      = take i (content fileData) @ directReplacement op
          @ drop (i + length (op_codeToDelete op)) (content fileData)"
    using assms(6) i(1) by (simp add: replace_plain replaceFirstLiterally_def)
  finally have "applyOperation (m, console) op =
               (AList.update (op_fileName op)
                  (fileData\<lparr>content := take i (content fileData) @ directReplacement op
                       @ drop (i + length (op_codeToDelete op)) (content fileData)\<rparr>) m,
                console @ [WarnContextMismatch (op_fileName op)])"
    using assms(1) by (simp add: applyOperation_present)
  with i(2) only show ?thesis by blast
qed

text \<open>
  C2 at a new code that contains a dollar form: the anchor \<^verbatim>\<open>var price = 0;\<close> does not
  occur in \<^verbatim>\<open>let price = 0;\<close>, \<^verbatim>\<open>0\<close> occurs exactly once, and the new code is
  \<^verbatim>\<open>amount + '$'\<close>. The claim expects \<^verbatim>\<open>let price = amount + '$';\<close>; the fall-back
  \<^verbatim>\<open>replace\<close> expands the dollar-apostrophe form to the text after the match, \<^verbatim>\<open>;\<close>,
  and the new content is \<^verbatim>\<open>let price = amount + ';;\<close>.
\<close>

theorem fallback_replacement_expands_dollar:
  "occurrenceCount (fullContextString (Mod stalePrice)) (content priceFile) = 0
   \<and> occurrenceCount (op_codeToDelete (Mod stalePrice)) (content priceFile) = 1
   \<and> replaceFirstLiterally (content priceFile) (op_codeToDelete (Mod stalePrice))
        (directReplacement (Mod stalePrice))
       = ''let price = amount + '' @ [CHR 0x27, CHR ''$'', CHR 0x27] @ '';''
   \<and> applyChanges [priceFile] (emptyPlan\<lparr>modify := Some [stalePrice]\<rparr>)
       = [\<lparr>content = ''let price = amount + '' @ [CHR 0x27] @ '';;'', type = ''text/javascript'',
           name = ''price.js''\<rparr>]
   \<and> consoleOf [priceFile] (emptyPlan\<lparr>modify := Some [stalePrice]\<rparr>)
       = [WarnContextMismatch ''price.js'']
   \<and> map content (applyChanges [priceFile] (emptyPlan\<lparr>modify := Some [stalePrice]\<rparr>))
       \<noteq> [replaceFirstLiterally (content priceFile) (op_codeToDelete (Mod stalePrice))
            (directReplacement (Mod stalePrice))]"
  by code_simp


section \<open>Numbers and keys of the version store\<close>

lemma exactLimit_pos: "0 < exactLimit"
  by (simp add: exactLimit_def)

lemma digitChar_value: "d < 10 \<Longrightarrow> digitValue (digitChar d) = d"
  by (simp add: digitValue_def digitChar_def of_char_of)

lemma digitChar_isDigit: "d < 10 \<Longrightarrow> isDigit (digitChar d)"
  by (simp add: isDigit_def digitChar_def of_char_of)

lemma isDigit_plain: "isDigit c \<Longrightarrow> \<not> isWhiteSpace c \<and> c \<noteq> CHR ''-'' \<and> c \<noteq> CHR ''+''"
  by (auto simp: isDigit_def isWhiteSpace_def)

lemma digitsOf_nonempty: "digitsOf n \<noteq> []"
  by (induction n rule: digitsOf.induct) (subst digitsOf.simps, simp)

lemma digitsOf_digits: "c \<in> set (digitsOf n) \<Longrightarrow> isDigit c"
proof (induction n rule: digitsOf.induct)
  case (1 n)
  show ?case
  proof (cases "n < 10")
    case True
    then show ?thesis using "1.prems" by (subst (asm) digitsOf.simps) (simp add: digitChar_isDigit)
  next
    case False
    then have "c \<in> set (digitsOf (n div 10)) \<or> c = digitChar (n mod 10)"
      using "1.prems" by (subst (asm) digitsOf.simps) auto
    then show ?thesis using "1.IH" False by (auto simp: digitChar_isDigit)
  qed
qed

lemma digitsValue_snoc: "digitsValue (ds @ [c]) = 10 * digitsValue ds + digitValue c"
  by (simp add: digitsValue_def)

lemma digitsValue_digitsOf: "digitsValue (digitsOf n) = n"
proof (induction n rule: digitsOf.induct)
  case (1 n)
  show ?case
  proof (cases "n < 10")
    case True
    then show ?thesis by (subst digitsOf.simps) (simp add: digitsValue_def digitChar_value)
  next
    case False
    then have "digitsValue (digitsOf n) = 10 * digitsValue (digitsOf (n div 10)) + digitValue (digitChar (n mod 10))"
      by (subst digitsOf.simps) (simp add: digitsValue_snoc)
    then show ?thesis using "1.IH" False by (simp add: digitChar_value)
  qed
qed

lemma parseInt_digits:
  assumes "ds \<noteq> []" and "\<forall>c \<in> set ds. isDigit c" and "int (digitsValue ds) \<le> exactLimit"
  shows "parseInt ds = Some (Num (int (digitsValue ds)))"
    and "parseInt (CHR ''-'' # ds) = Some (Num (- int (digitsValue ds)))"
proof -
  obtain d ds' where ds: "ds = d # ds'" using assms(1) by (cases ds) auto
  have d: "isDigit d" using assms(2) ds by simp
  have tw: "takeWhile isDigit ds = ds" using assms(2) by (simp add: takeWhile_eq_all_conv)
  have nws: "\<not> isWhiteSpace d" "d \<noteq> CHR ''-''" "d \<noteq> CHR ''+''"
    using isDigit_plain [OF d] by simp_all
  have dw: "dropWhile isWhiteSpace ds = ds" using nws ds by simp
  have hdf: "hd ds \<noteq> CHR ''-''" "hd ds \<noteq> CHR ''+''" using nws ds by simp_all
  show "parseInt ds = Some (Num (int (digitsValue ds)))"
    using assms(1,3) hdf by (simp add: parseInt_def Let_def dw tw)
  have nm: "\<not> isWhiteSpace CHR ''-''" by (simp add: isWhiteSpace_def)
  show "parseInt (CHR ''-'' # ds) = Some (Num (- int (digitsValue ds)))"
    using assms(1,3) by (simp add: parseInt_def Let_def nm tw)
qed

text \<open>Within the exact integers the three operations stay within them.\<close>

lemma parseInt_exact: "parseInt s = Some (Num i) \<Longrightarrow> exact i"
  using exactLimit_pos by (auto simp: parseInt_def Let_def exact_def split: if_splits)


lemma toString_exact: "toString (Num i) = Some s \<Longrightarrow> exact i"
  by (simp add: toString.simps split: if_splits)

lemma toString_defined: "exact i \<Longrightarrow> \<exists>s. toString (Num i) = Some s"
  by (simp add: toString.simps)

lemma parseInt_toString:
  assumes "toString (Num i) = Some s"
  shows "parseInt s = Some (Num i)"
proof (cases "i < 0")
  case True
  have e: "exact i" using assms by (rule toString_exact)
  have s: "s = CHR ''-'' # digitsOf (nat (- i))"
    using assms True e by (simp add: toString.simps)
  have "int (digitsValue (digitsOf (nat (- i)))) \<le> exactLimit"
    using e True by (simp add: digitsValue_digitsOf exact_def)
  then have "parseInt (CHR ''-'' # digitsOf (nat (- i))) = Some (Num (- int (digitsValue (digitsOf (nat (- i))))))"
    by (intro parseInt_digits) (simp_all add: digitsOf_nonempty digitsOf_digits)
  then show ?thesis using True s by (simp add: digitsValue_digitsOf)
next
  case False
  have e: "exact i" using assms by (rule toString_exact)
  have s: "s = digitsOf (nat i)"
    using assms False e by (simp add: toString.simps)
  have "int (digitsValue (digitsOf (nat i))) \<le> exactLimit"
    using e False by (simp add: digitsValue_digitsOf exact_def)
  then have "parseInt (digitsOf (nat i)) = Some (Num (int (digitsValue (digitsOf (nat i)))))"
    by (intro parseInt_digits) (simp_all add: digitsOf_nonempty digitsOf_digits)
  then show ?thesis using False s by (simp add: digitsValue_digitsOf)
qed

lemma toString_nonempty: "toString n = Some s \<Longrightarrow> s \<noteq> []"
  by (cases n) (auto simp: toString.simps digitsOf_nonempty split: if_splits)





section \<open>Saving and listing versions\<close>

lemma count_key_split: "VERSION_COUNT_KEY = VERSION_PREFIX @ ''count''"
  by (simp add: VERSION_COUNT_KEY_def VERSION_PREFIX_def)



lemma parseInt_count: "parseInt ''count'' = Some NaN"
  by code_simp

lemma toString_not_count: "toString n = Some s \<Longrightarrow> s \<noteq> ''count''"
proof (cases n)
  case NaN
  assume "toString n = Some s"
  then show ?thesis using NaN by (auto simp: toString.simps)
next
  case (Num i)
  assume s: "toString n = Some s"
  show ?thesis
  proof
    assume "s = ''count''"
    then have "parseInt ''count'' = Some (Num i)"
      using parseInt_toString [of i s] s Num by simp
    then show False by (simp add: parseInt_count)
  qed
qed

lemma version_key_not_count: "toString n = Some s \<Longrightarrow> VERSION_PREFIX @ s \<noteq> VERSION_COUNT_KEY"
  by (simp add: count_key_split toString_not_count)

lemma toString_inj:
  assumes "toString (Num i) = Some s" and "toString (Num j) = Some s"
  shows "i = j"
proof -
  have "parseInt s = Some (Num i)" using assms(1) by (rule parseInt_toString)
  moreover have "parseInt s = Some (Num j)" using assms(2) by (rule parseInt_toString)
  ultimately show ?thesis by simp
qed

lemma count_after_write:
  "toString (Num n) = Some s \<Longrightarrow>
   currentVersionCount (AList.update VERSION_COUNT_KEY s items) = Some (Num n)"
  by (simp add: currentVersionCount_def getItem_def update_conv' toString_nonempty parseInt_toString)

lemma count_exact: "currentVersionCount items = Some (Num i) \<Longrightarrow> exact i"
  using exactLimit_pos
  by (auto simp: currentVersionCount_def exact_def split: option.splits if_splits dest: parseInt_exact)



lemma save_rejected_first:
  "currentVersionCount items = Some c \<Longrightarrow> plus1 c = Some m \<Longrightarrow> toString m = Some k \<Longrightarrow>
   rejects items (VERSION_PREFIX @ k) (str fs) \<Longrightarrow>
   saveCodeVersion rejects str (Some items) fs = Some (Num (- 1), Some items)"
  by (simp add: saveCodeVersion_def setItem_def)

lemma save_rejected_second:
  "currentVersionCount items = Some c \<Longrightarrow> plus1 c = Some m \<Longrightarrow> toString m = Some k \<Longrightarrow>
   \<not> rejects items (VERSION_PREFIX @ k) (str fs) \<Longrightarrow>
   rejects (AList.update (VERSION_PREFIX @ k) (str fs) items) VERSION_COUNT_KEY k \<Longrightarrow>
   saveCodeVersion rejects str (Some items) fs =
     Some (Num (- 1), Some (AList.update (VERSION_PREFIX @ k) (str fs) items))"
  by (simp add: saveCodeVersion_def setItem_def)

lemma save_accepted:
  "currentVersionCount items = Some c \<Longrightarrow> plus1 c = Some m \<Longrightarrow> toString m = Some k \<Longrightarrow>
   \<not> rejects items (VERSION_PREFIX @ k) (str fs) \<Longrightarrow>
   \<not> rejects (AList.update (VERSION_PREFIX @ k) (str fs) items) VERSION_COUNT_KEY k \<Longrightarrow>
   saveCodeVersion rejects str (Some items) fs =
     Some (m, Some (AList.update VERSION_COUNT_KEY k (AList.update (VERSION_PREFIX @ k) (str fs) items)))"
  by (simp add: saveCodeVersion_def setItem_def)

lemma save_cases:
  assumes "currentVersionCount items = Some c" and "plus1 c = Some m" and "toString m = Some k"
  obtains
    (failed) st where "saveCodeVersion rejects str (Some items) fs = Some (Num (- 1), st)"
  | (saved) "saveCodeVersion rejects str (Some items) fs =
     Some (m, Some (AList.update VERSION_COUNT_KEY k (AList.update (VERSION_PREFIX @ k) (str fs) items)))"
proof (cases "rejects items (VERSION_PREFIX @ k) (str fs)")
  case True
  then show ?thesis using failed save_rejected_first [OF assms, of rejects str fs] by simp
next
  case False
  show ?thesis
  proof (cases "rejects (AList.update (VERSION_PREFIX @ k) (str fs) items) VERSION_COUNT_KEY k")
    case True
    then show ?thesis using failed False save_rejected_second [OF assms, of rejects str fs] by simp
  next
    case nr: False
    then show ?thesis using saved False save_accepted [OF assms, of rejects str fs] by simp
  qed
qed


lemma save_Some:
  assumes "saveCodeVersion rejects str (Some items) fs = Some r"
  obtains c m k where "currentVersionCount items = Some c" and "plus1 c = Some m"
    and "toString m = Some k"
  using assms by (auto simp: saveCodeVersion_def split: option.splits)

text \<open>A save that returns a number from 1 on has stored the file list and that number.\<close>

lemma save_returned:
  assumes "saveCodeVersion rejects str (Some items) fs = Some (Num n, st)" and "1 \<le> n"
  shows "\<exists>items' k. st = Some items' \<and> toString (Num n) = Some k
           \<and> currentVersionCount items' = Some (Num n)
           \<and> map_of items' (VERSION_PREFIX @ k) = Some (str fs)"
proof -
  obtain c m k where cmk: "currentVersionCount items = Some c" "plus1 c = Some m" "toString m = Some k"
    using assms(1) by (rule save_Some)
  show ?thesis
  proof (rule save_cases [OF cmk, of rejects str fs])
    fix st'
    assume "saveCodeVersion rejects str (Some items) fs = Some (Num (- 1), st')"
    then show ?thesis using assms by simp
  next
    assume "saveCodeVersion rejects str (Some items) fs =
      Some (m, Some (AList.update VERSION_COUNT_KEY k (AList.update (VERSION_PREFIX @ k) (str fs) items)))"
    then have n: "m = Num n"
      and st: "st = Some (AList.update VERSION_COUNT_KEY k (AList.update (VERSION_PREFIX @ k) (str fs) items))"
      using assms(1) by simp_all
    have k: "toString (Num n) = Some k" using cmk(3) n by simp
    have "map_of (AList.update VERSION_COUNT_KEY k (AList.update (VERSION_PREFIX @ k) (str fs) items))
            (VERSION_PREFIX @ k) = Some (str fs)"
      using version_key_not_count [OF k] by (simp add: update_conv')
    then show ?thesis using st k by (simp add: count_after_write)
  qed
qed

lemma plus1_below: "exact n \<Longrightarrow> n < exactLimit \<Longrightarrow> plus1 (Num n) = Some (Num (n + 1))"
  by simp

lemma toString_successor: "exact n \<Longrightarrow> n < exactLimit \<Longrightarrow> \<exists>k. toString (Num (n + 1)) = Some k"
  by (rule toString_defined) (simp add: exact_def)


lemma save_next_accepted:
  assumes "currentVersionCount items = Some (Num n)" and "n < exactLimit"
    and "\<forall>i k v. \<not> rejects i k v"
  shows "\<exists>st. saveCodeVersion rejects str (Some items) fs = Some (Num (n + 1), st)"
proof -
  have e: "exact n" using assms(1) by (rule count_exact)
  have p: "plus1 (Num n) = Some (Num (n + 1))" using e assms(2) by (rule plus1_below)
  obtain k where k: "toString (Num (n + 1)) = Some k" using toString_successor [OF e assms(2)] by blast
  show ?thesis
    using save_accepted [OF assms(1) p k, of rejects str fs] assms(3) by simp
qed

text \<open>At \<open>2\<^sup>5\<^sup>3\<close> the counter stays where it is.\<close>

lemma save_at_limit:
  assumes "currentVersionCount items = Some (Num exactLimit)" and "\<forall>i k v. \<not> rejects i k v"
  shows "\<exists>st. saveCodeVersion rejects str (Some items) fs = Some (Num exactLimit, st)"
proof -
  have e: "exact exactLimit" using exactLimit_pos by (simp add: exact_def)
  have p: "plus1 (Num exactLimit) = Some (Num exactLimit)" using e by simp
  obtain k where k: "toString (Num exactLimit) = Some k" using toString_defined [OF e] by blast
  show ?thesis
    using save_accepted [OF assms(1) p k, of rejects str fs] assms(2) by simp
qed






















lemma clearAll_keeps_foreign:
  "\<not> startsWith key VERSION_PREFIX \<Longrightarrow>
   map_of (filter (\<lambda>e. \<not> startsWith (fst e) VERSION_PREFIX) items) key = map_of items key"
  by (induction items) auto






text \<open>
  Every counter up to \<open>2\<^sup>5\<^sup>3\<close> is reached by saving, from the empty store, on a medium that
  accepts every write; there the counter stays.
\<close>

lemma counter_reached:
  "0 \<le> n \<Longrightarrow> n \<le> exactLimit \<Longrightarrow>
   \<exists>items. savedStore str items \<and> currentVersionCount items = Some (Num n)"
proof (induction n rule: int_ge_induct)
  case base
  have "currentVersionCount [] = Some (Num 0)"
    by (simp add: currentVersionCount_def getItem_def)
  then show ?case using savedStore.empty by blast
next
  case (step n)
  then obtain items where i: "savedStore str items" "currentVersionCount items = Some (Num n)"
    by auto
  have b: "n < exactLimit" using step.prems by simp
  obtain st where s: "saveCodeVersion (\<lambda>i k v. False) str (Some items) [] = Some (Num (n + 1), st)"
    using save_next_accepted [OF i(2) b, of "\<lambda>i k v. False" str "[]"] by auto
  obtain items' where j: "st = Some items'" "currentVersionCount items' = Some (Num (n + 1))"
    using save_returned [OF s] step.hyps by auto
  have "savedStore str items'"
    using i(1) s [unfolded j(1)] by (rule savedStore.save)
  then show ?case using j(2) by blast
qed

lemma limit_reached_and_kept:
  "\<exists>items st. savedStore str items
     \<and> saveCodeVersion (\<lambda>i k v. False) str (Some items) fs = Some (Num exactLimit, st)
     \<and> currentVersionCount items = Some (Num exactLimit)"
proof -
  obtain items where i: "savedStore str items" "currentVersionCount items = Some (Num exactLimit)"
    using counter_reached [of exactLimit str] exactLimit_pos by auto
  obtain st where "saveCodeVersion (\<lambda>i k v. False) str (Some items) fs = Some (Num exactLimit, st)"
    using save_at_limit [OF i(2), of "\<lambda>i k v. False" str fs] by auto
  then show ?thesis using i by blast
qed










end
